theory Spec2Isabelle
  imports Complex_Main "HOL-Library.Word"
begin

unbundle bit_operations_syntax

section \<open>sump-dump: a client for the SUMP logic-analyser protocol\<close>

text \<open>
  A shallow embedding of \<^verbatim>\<open>sump-dump.c\<close>. C's \<^verbatim>\<open>uint8_t\<close> is \<open>8 word\<close>,
  \<^verbatim>\<open>uint16_t\<close> is \<open>16 word\<close>, \<^verbatim>\<open>uint32_t\<close> and \<^verbatim>\<open>unsigned\<close> are \<open>32 word\<close>.
  Every \<^verbatim>\<open>exit\<close>, failed \<^verbatim>\<open>assert\<close> and undefined operation of the source is a
  value of \<open>error\<close>. Diagnostics written to the error stream are not modelled.
\<close>

type_synonym byte = "8 word"
type_synonym u16 = "16 word"
type_synonym u32 = "32 word"

datatype error =
    AssertFail          \<comment> \<open>a failed \<^verbatim>\<open>assert\<close>\<close>
  | WriteError          \<comment> \<open>\<^verbatim>\<open>write\<close> failed or was short: \<^verbatim>\<open>perror_exit\<close>\<close>
  | ReadError           \<comment> \<open>\<^verbatim>\<open>read\<close> failed: \<^verbatim>\<open>perror_exit\<close>\<close>
  | UnknownIdent        \<comment> \<open>the identification bytes are not \<^verbatim>\<open>1ALS\<close>: \<^verbatim>\<open>exit(EXIT_FAILURE)\<close>\<close>
  | ArgError            \<comment> \<open>\<^verbatim>\<open>argerr\<close>: usage message and \<^verbatim>\<open>exit(EXIT_FAILURE)\<close>\<close>
  | NoClockFreq         \<comment> \<open>\<^verbatim>\<open>clk_freq_hz == 0\<close>: \<^verbatim>\<open>exit(EXIT_FAILURE)\<close>\<close>
  | DivByZero           \<comment> \<open>an integer division by zero\<close>
  | UndefinedShift      \<comment> \<open>a shift by at least the width of the type, or one that overflows \<^verbatim>\<open>int\<close>\<close>
  | UndefinedConversion \<comment> \<open>a \<^verbatim>\<open>double\<close> converted to an integer type that cannot hold it\<close>
  | OutOfBounds         \<comment> \<open>a read outside the allocated buffer\<close>
  | OpenError           \<comment> \<open>\<^verbatim>\<open>open\<close> or a call of \<^verbatim>\<open>setup_serial\<close> failed\<close>

subsection \<open>Command frames\<close>

record cmd =
  data :: "byte list"   \<comment> \<open>\<^verbatim>\<open>uint8_t data[5]\<close>\<close>
  len :: nat

definition cmd_reset :: cmd where
  "cmd_reset = \<lparr>data = [0, 0, 0, 0, 0], len = 1\<rparr>"

definition cmd_run :: cmd where
  "cmd_run = \<lparr>data = [1, 0, 0, 0, 0], len = 1\<rparr>"

definition cmd_id :: cmd where
  "cmd_id = \<lparr>data = [2, 0, 0, 0, 0], len = 1\<rparr>"

definition cmd_get_meta :: cmd where
  "cmd_get_meta = \<lparr>data = [4, 0, 0, 0, 0], len = 1\<rparr>"

text \<open>The bytes a command puts on the wire: the first \<open>len\<close> bytes of \<open>data\<close>.\<close>

definition frame :: "cmd \<Rightarrow> byte list" where
  "frame c = take (len c) (data c)"

text \<open>
  The encoders fill every field of the \<^verbatim>\<open>struct cmd\<close> they are given, so the model
  returns the command. A failed assertion is \<open>Inl AssertFail\<close>.
\<close>

definition cmd_divider :: "u32 \<Rightarrow> error + cmd" where
  "cmd_divider dv =
     (if drop_bit 24 dv \<noteq> 0 then Inl AssertFail
      else Inr \<lparr>data = [0x80,
                        ucast (dv AND 0xFF),
                        ucast (drop_bit 8 dv AND 0xFF),
                        ucast (drop_bit 16 dv AND 0xFF),
                        0],
                len = 5\<rparr>)"

definition cmd_counts :: "u16 \<Rightarrow> u16 \<Rightarrow> cmd" where
  "cmd_counts read_count delay_count =
     \<lparr>data = [0x81,
              ucast (read_count AND 0xFF),
              ucast (drop_bit 8 read_count AND 0xFF),
              ucast (delay_count AND 0xFF),
              ucast (drop_bit 8 delay_count AND 0xFF)],
      len = 5\<rparr>"

definition cmd_flags :: "u32 \<Rightarrow> bool \<Rightarrow> bool \<Rightarrow> bool \<Rightarrow> bool \<Rightarrow> bool \<Rightarrow> error + cmd" where
  "cmd_flags group_disable demux filter_on external inverted rle_on =
     (if drop_bit 4 group_disable \<noteq> 0 then Inl AssertFail
      else Inr \<lparr>data = [0x82,
                        ucast (push_bit 2 group_disable
                               OR (if demux then 0x01 else 0)
                               OR (if filter_on then 0x02 else 0)
                               OR (if external then 0x40 else 0)
                               OR (if inverted then 0x80 else 0)),
                        (if rle_on then 0x01 else 0),
                        0,
                        0],
                len = 5\<rparr>)"

definition cmd_trig_mask :: "u32 \<Rightarrow> u32 \<Rightarrow> error + cmd" where
  "cmd_trig_mask stage msk =
     (if \<not> stage \<le> 3 then Inl AssertFail
      else Inr \<lparr>data = [ucast (0xC0 OR push_bit 2 stage),
                        ucast (msk AND 0xFF),
                        ucast (drop_bit 8 msk AND 0xFF),
                        ucast (drop_bit 16 msk AND 0xFF),
                        ucast (drop_bit 24 msk AND 0xFF)],
                len = 5\<rparr>)"

definition cmd_trig_value :: "u32 \<Rightarrow> u32 \<Rightarrow> error + cmd" where
  "cmd_trig_value stage vals =
     (if \<not> stage \<le> 3 then Inl AssertFail
      else Inr \<lparr>data = [ucast (0xC1 OR push_bit 2 stage),
                        ucast (vals AND 0xFF),
                        ucast (drop_bit 8 vals AND 0xFF),
                        ucast (drop_bit 16 vals AND 0xFF),
                        ucast (drop_bit 24 vals AND 0xFF)],
                len = 5\<rparr>)"

definition cmd_trig_cfg :: "u32 \<Rightarrow> u16 \<Rightarrow> u32 \<Rightarrow> u32 \<Rightarrow> bool \<Rightarrow> bool \<Rightarrow> error + cmd" where
  "cmd_trig_cfg stage delay level channel serial start =
     (if \<not> stage \<le> 3 \<or> \<not> level \<le> 3 \<or> \<not> channel \<le> 31 then Inl AssertFail
      else Inr \<lparr>data = [ucast (0xC2 OR push_bit 2 stage),
                        ucast (delay AND 0xFF),
                        ucast (drop_bit 8 delay AND 0xFF),
                        ucast (push_bit 4 (channel AND 0xF) OR level),
                        ucast (drop_bit 4 channel
                               OR (if serial then 0x4 else 0)
                               OR (if start then 0x8 else 0))],
                len = 5\<rparr>)"

text \<open>
  Reading four wire bytes back as a little-endian 32-bit operand. This is the decoder the
  protocol's receiving side applies; it is not part of the program.
\<close>

definition le32_decode :: "byte list \<Rightarrow> u32" where
  "le32_decode bs =
     ucast (bs ! 0) OR push_bit 8 (ucast (bs ! 1))
       OR push_bit 16 (ucast (bs ! 2)) OR push_bit 24 (ucast (bs ! 3))"

subsection \<open>The serial transport\<close>

text \<open>
  The file descriptor is modelled by what the program can observe of it: the frames it has
  written so far (\<open>sent\<close>), the bytes the device will still deliver (\<open>incoming\<close>) and the
  number of \<^verbatim>\<open>write\<close> calls that will still succeed (\<open>wr_left\<close>). A \<^verbatim>\<open>read\<close> on an
  exhausted stream is the failing \<^verbatim>\<open>read\<close> of the source (a device that stays silent
  for ever, so that \<^verbatim>\<open>read\<close> blocks, is not modelled). Every operation returns the
  transport it leaves behind, also when it fails, so that what was exchanged before an
  \<^verbatim>\<open>exit\<close> stays visible.
\<close>

record tty =
  sent :: "byte list list"
  incoming :: "byte list"
  wr_left :: nat

definition write_tty :: "cmd \<Rightarrow> tty \<Rightarrow> (error + unit) \<times> tty" where
  "write_tty c t =
     (if wr_left t = 0 then (Inl WriteError, t)
      else (Inr (), t\<lparr>sent := sent t @ [frame c], wr_left := wr_left t - 1\<rparr>))"

definition read_tty :: "nat \<Rightarrow> tty \<Rightarrow> (error + byte list) \<times> tty" where
  "read_tty bytes t =
     (if length (incoming t) < bytes then (Inl ReadError, t\<lparr>incoming := []\<rparr>)
      else (Inr (take bytes (incoming t)), t\<lparr>incoming := drop bytes (incoming t)\<rparr>))"

text \<open>Sequencing of transport operations: the first failure ends the run.\<close>

definition bind_io ::
  "(tty \<Rightarrow> (error + 'a) \<times> tty) \<Rightarrow> ('a \<Rightarrow> tty \<Rightarrow> (error + 'b) \<times> tty) \<Rightarrow> tty \<Rightarrow> (error + 'b) \<times> tty" where
  "bind_io m f t = (case m t of (Inl e, t') \<Rightarrow> (Inl e, t') | (Inr x, t') \<Rightarrow> f x t')"

definition lift_io :: "error + 'a \<Rightarrow> tty \<Rightarrow> (error + 'a) \<times> tty" where
  "lift_io r t = (r, t)"

text \<open>\<^verbatim>\<open>for(unsigned i = 0; i < n; i += 1) write_tty(fd, c);\<close>\<close>

fun write_times :: "nat \<Rightarrow> cmd \<Rightarrow> tty \<Rightarrow> (error + unit) \<times> tty" where
  "write_times 0 c t = (Inr (), t)"
| "write_times (Suc n) c t =
     (case write_tty c t of (Inl e, t') \<Rightarrow> (Inl e, t') | (Inr _, t') \<Rightarrow> write_times n c t')"

subsection \<open>Configuration\<close>

text \<open>
  \<^verbatim>\<open>struct vcd_value\<close>. The field \<^verbatim>\<open>mask\<close> is \<open>mask_v\<close> here; \<open>bitmasks\<close> is the
  array of \<^verbatim>\<open>MAX_VCD_VALUE_BITS\<close> entries, of which the first \<open>num_bits\<close> are in use.
\<close>

definition MAX_VCD_VALUES :: nat where "MAX_VCD_VALUES = 32"
definition MAX_VCD_VALUE_BITS :: nat where "MAX_VCD_VALUE_BITS = 32"
definition MAX_VCD_NAME_LEN :: nat where "MAX_VCD_NAME_LEN = 32"

record vcd_value =
  name :: string
  mask_v :: u32
  num_bits :: nat
  bitmasks :: "u32 list"

text \<open>
  \<^verbatim>\<open>struct cfg\<close>. The array \<^verbatim>\<open>vcd.values\<close> with its count \<^verbatim>\<open>vcd.num_values\<close> is the
  list \<open>vcd_values\<close> of the values in use.
\<close>

record cfg =
  group_enable :: u32
  trigger_mask :: u32
  trigger_value :: u32
  clk_divisor :: u32
  samples :: u32
  before_trig :: u32
  rle :: bool
  raw :: bool
  ext_meta :: bool
  clk_freq_hz :: u32
  sample_memory :: u32
  num_probes :: u32
  vcd_values :: "vcd_value list"
  max_groups :: u32
  group_mask :: u32
  num_groups_enabled :: u32

definition num_values :: "cfg \<Rightarrow> nat" where
  "num_values c = length (vcd_values c)"

subsection \<open>Identification and extended metadata\<close>

definition ident_magic :: "byte list" where
  "ident_magic = [0x31, 0x41, 0x4C, 0x53]"   \<comment> \<open>\<^verbatim>\<open>"1ALS"\<close>\<close>

text \<open>
  A metadata string: the first loop stores up to 256 bytes and stops after a NUL; when the
  buffer is full without one, the second loop discards bytes up to the next NUL. The
  string itself only goes to the error stream, so the model returns the transport alone.
\<close>

function str_fill :: "nat \<Rightarrow> tty \<Rightarrow> (error + byte) \<times> tty" where
  "str_fill i t =
     (case read_tty 1 t of
        (Inl e, t') \<Rightarrow> (Inl e, t')
      | (Inr bs, t') \<Rightarrow>
          if bs ! 0 \<noteq> 0 \<and> i + 1 \<noteq> 256 then str_fill (i + 1) t' else (Inr (bs ! 0), t'))"
  by pat_completeness auto
termination
proof (relation "measure (\<lambda>(i, t). length (incoming t))", goal_cases)
  case 1
  show ?case by simp
next
  case (2 i t x1 t' bs)
  then show ?case by (auto simp: read_tty_def split: if_splits)
qed

declare str_fill.simps [simp del]

function str_skip :: "tty \<Rightarrow> (error + unit) \<times> tty" where
  "str_skip t =
     (case read_tty 1 t of
        (Inl e, t') \<Rightarrow> (Inl e, t')
      | (Inr bs, t') \<Rightarrow> if bs ! 0 \<noteq> 0 then str_skip t' else (Inr (), t'))"
  by pat_completeness auto
termination
proof (relation "measure (\<lambda>t. length (incoming t))", goal_cases)
  case 1
  show ?case by simp
next
  case (2 t x1 t' bs)
  then show ?case by (auto simp: read_tty_def split: if_splits)
qed

declare str_skip.simps [simp del]

definition read_meta_str :: "tty \<Rightarrow> (error + unit) \<times> tty" where
  "read_meta_str t =
     (case str_fill 0 t of
        (Inl e, t') \<Rightarrow> (Inl e, t')
      | (Inr b, t') \<Rightarrow> if b \<noteq> 0 then str_skip t' else (Inr (), t'))"

text \<open>
  The 32-bit value of a kind-1 entry, as line 265 assembles it:
  \<^verbatim>\<open>(uint32_t)valb[3] | (valb[2] << 8) | (valb[1] << 16) | (valb[2] << 24)\<close>.
  The bytes shifted are promoted to \<^verbatim>\<open>int\<close>; \<^verbatim>\<open>valb[2] << 24\<close> does not fit an
  \<^verbatim>\<open>int\<close> when \<^verbatim>\<open>valb[2]\<close> is \<open>0x80\<close> or more, and is undefined then.
\<close>

definition meta_u32 :: "byte list \<Rightarrow> error + u32" where
  "meta_u32 valb =
     (if 0x80 \<le> valb ! 2 then Inl UndefinedShift
      else Inr (ucast (valb ! 3) OR push_bit 8 (ucast (valb ! 2))
                  OR push_bit 16 (ucast (valb ! 1)) OR push_bit 24 (ucast (valb ! 2))))"

definition meta_store :: "byte \<Rightarrow> u32 \<Rightarrow> cfg \<Rightarrow> cfg" where
  "meta_store ident val c =
     (if ident = 0 then c\<lparr>num_probes := val\<rparr>
      else if ident = 1 then c\<lparr>sample_memory := val\<rparr>
      else if ident = 3 then c\<lparr>clk_freq_hz := val\<rparr>
      else c)"

text \<open>The loop of \<^verbatim>\<open>read_ident\<close> over the metadata entries.\<close>

function read_meta :: "cfg \<Rightarrow> tty \<Rightarrow> (error + cfg) \<times> tty" where
  "read_meta c t =
     (case read_tty 1 t of
        (Inl e, t1) \<Rightarrow> (Inl e, t1)
      | (Inr bs, t1) \<Rightarrow>
          let meta = bs ! 0 in
          if meta = 0 then (Inr c, t1)
          else if drop_bit 5 meta = 0 then
            (case read_meta_str t1 of
               (Inl e, t2) \<Rightarrow> (Inl e, t2)
             | (Inr _, t2) \<Rightarrow> read_meta c t2)
          else if drop_bit 5 meta = 1 then
            (case read_tty 4 t1 of
               (Inl e, t2) \<Rightarrow> (Inl e, t2)
             | (Inr valb, t2) \<Rightarrow>
                 (case meta_u32 valb of
                    Inl e \<Rightarrow> (Inl e, t2)
                  | Inr val \<Rightarrow> read_meta (meta_store (meta AND 0x1f) val c) t2))
          else if drop_bit 5 meta = 2 then
            (case read_tty 1 t1 of
               (Inl e, t2) \<Rightarrow> (Inl e, t2)
             | (Inr val, t2) \<Rightarrow> read_meta c t2)
          else (Inr c, t1))"
  by pat_completeness auto
termination
proof -
  have rd: "length (incoming t') + n = length (incoming t)"
    if "read_tty n t = (Inr bs, t')" for n t bs t'
    using that by (auto simp: read_tty_def split: if_splits)
  have rd_le: "length (incoming t') \<le> length (incoming t)"
    if "read_tty n t = (r, t')" for n t r t'
    using that by (auto simp: read_tty_def split: if_splits)
  have fill: "length (incoming t') \<le> length (incoming t)"
    if "str_fill i t = (r, t')" for i t r t'
    using that
  proof (induction i t arbitrary: r t' rule: str_fill.induct)
    case (1 i t)
    obtain a t1 where rt: "read_tty 1 t = (a, t1)" by (cases "read_tty 1 t")
    have le: "length (incoming t1) \<le> length (incoming t)" using rd_le [OF rt] .
    show ?case
    proof (cases "\<exists>bs. a = Inr bs \<and> bs ! 0 \<noteq> 0 \<and> i + 1 \<noteq> 256")
      case True
      then obtain bs where a: "a = Inr bs" and go: "bs ! 0 \<noteq> 0 \<and> i + 1 \<noteq> 256" by blast
      from "1.prems" rt a go have "str_fill (i + 1) t1 = (r, t')"
        by (simp add: str_fill.simps [of i t])
      from "1.IH" [OF rt [symmetric] a go this] le show ?thesis by simp
    next
      case False
      with "1.prems" rt have "t' = t1"
        by (cases a) (auto simp: str_fill.simps [of i t] split: if_splits)
      with le show ?thesis by simp
    qed
  qed
  have skip: "length (incoming t') \<le> length (incoming t)"
    if "str_skip t = (r, t')" for t r t'
    using that
  proof (induction t arbitrary: r t' rule: str_skip.induct)
    case (1 t)
    obtain a t1 where rt: "read_tty 1 t = (a, t1)" by (cases "read_tty 1 t")
    have le: "length (incoming t1) \<le> length (incoming t)" using rd_le [OF rt] .
    show ?case
    proof (cases "\<exists>bs. a = Inr bs \<and> bs ! 0 \<noteq> 0")
      case True
      then obtain bs where a: "a = Inr bs" and go: "bs ! 0 \<noteq> 0" by blast
      from "1.prems" rt a go have "str_skip t1 = (r, t')"
        by (simp add: str_skip.simps [of t])
      from "1.IH" [OF rt [symmetric] a go this] le show ?thesis by simp
    next
      case False
      with "1.prems" rt have "t' = t1"
        by (cases a) (auto simp: str_skip.simps [of t] split: if_splits)
      with le show ?thesis by simp
    qed
  qed
  have str: "length (incoming t') \<le> length (incoming t)"
    if "read_meta_str t = (r, t')" for t r t'
  proof -
    obtain a t1 where f: "str_fill 0 t = (a, t1)" by (cases "str_fill 0 t")
    show ?thesis
    proof (cases "\<exists>b. a = Inr b \<and> b \<noteq> 0")
      case True
      with that f have "str_skip t1 = (r, t')" by (auto simp: read_meta_str_def)
      from skip [OF this] fill [OF f] show ?thesis by simp
    next
      case False
      with that f have "t' = t1"
        by (cases a) (auto simp: read_meta_str_def split: if_splits)
      with fill [OF f] show ?thesis by simp
    qed
  qed
  show ?thesis
  proof (relation "measure (\<lambda>(c, t). length (incoming t))", goal_cases)
    case 1
    show ?case by simp
  next
    case (2 c t x1 t1 bs meta x2 t2 u)
    then show ?case
      using rd [of 1 t bs t1] str [of t1 "Inr u" t2] by simp
  next
    case (3 c t x1 t1 bs meta x2 t2 valb val)
    then show ?case
      using rd [of 1 t bs t1] rd [of 4 t1 valb t2] by simp
  next
    case (4 c t x1 t1 bs meta x2 t2 val)
    then show ?case
      using rd [of 1 t bs t1] rd [of 1 t1 val t2] by simp
  qed
qed

declare read_meta.simps [simp del]

definition read_ident :: "cfg \<Rightarrow> tty \<Rightarrow> (error + cfg) \<times> tty" where
  "read_ident c =
     bind_io (write_times 5 cmd_reset) (\<lambda>_.
     bind_io (write_tty cmd_id) (\<lambda>_.
     bind_io (read_tty 4) (\<lambda>ident.
       if ident \<noteq> ident_magic then lift_io (Inl UnknownIdent)
       else if \<not> ext_meta c then lift_io (Inr c)
       else bind_io (write_tty cmd_get_meta) (\<lambda>_. read_meta c))))"

subsection \<open>Derived parameters\<close>

text \<open>
  \<^verbatim>\<open>for(unsigned n = cfg.group_enable & cfg.group_mask; n; n >>= 1) cfg.num_groups_enabled += 1;\<close>
\<close>

function count_groups :: "u32 \<Rightarrow> u32 \<Rightarrow> u32" where
  "count_groups n acc = (if n \<noteq> 0 then count_groups (drop_bit 1 n) (acc + 1) else acc)"
  by pat_completeness auto
termination
proof (relation "measure (\<lambda>(n, acc). unat n)", goal_cases)
  case 1
  show ?case by simp
next
  case (2 n acc)
  then have "unat n \<noteq> 0" by (simp add: unat_eq_0)
  then show ?case by (simp add: unat_drop_bit_eq drop_bit_eq_div unat_div)
qed

declare count_groups.simps [simp del]

text \<open>
  Lines 728 to 758 of \<^verbatim>\<open>main\<close>, between \<^verbatim>\<open>read_ident\<close> and \<^verbatim>\<open>capture\<close>. The
  argument \<open>after_trig\<close> is the local variable of that name (\<^verbatim>\<open>UINT32_MAX\<close> when the
  option was not given). \<^verbatim>\<open>1u << cfg.max_groups\<close> is undefined for a count of 32 or
  more, and \<^verbatim>\<open>cfg.sample_memory / cfg.num_groups_enabled\<close> for a zero divisor.
\<close>

definition derive :: "u32 \<Rightarrow> cfg \<Rightarrow> error + cfg" where
  "derive after_trig c0 =
     (let c1 = c0\<lparr>max_groups := (num_probes c0 + 7) div 8\<rparr> in
      if 32 \<le> unat (max_groups c1) then Inl UndefinedShift
      else
        let c2 = c1\<lparr>group_mask := push_bit (unat (max_groups c1)) 1 - 1\<rparr>;
            c3 = (if group_enable c2 = 0 then c2\<lparr>group_enable := group_mask c2\<rparr> else c2);
            c4 = c3\<lparr>num_groups_enabled := count_groups (group_enable c3 AND group_mask c3) 0\<rparr>
        in
        if samples c4 = 0 \<and> num_groups_enabled c4 = 0 then Inl DivByZero
        else
          let c5 = (if samples c4 = 0
                    then c4\<lparr>samples := sample_memory c4 div num_groups_enabled c4\<rparr> else c4);
              c6 = (if after_trig \<noteq> 0xFFFFFFFF
                    then c5\<lparr>before_trig :=
                           samples c5 - (if after_trig > samples c5 then samples c5 else after_trig)\<rparr>
                    else c5)
          in if clk_freq_hz c6 = 0 then Inl NoClockFreq else Inr c6)"

subsection \<open>Text output\<close>

definition hex_digit :: "nat \<Rightarrow> char" where
  "hex_digit n = ''0123456789ABCDEF'' ! n"

text \<open>\<^verbatim>\<open>%02X\<close> of a byte.\<close>

definition hex02 :: "byte \<Rightarrow> string" where
  "hex02 b = [hex_digit (unat b div 16), hex_digit (unat b mod 16)]"

text \<open>\<^verbatim>\<open>%u\<close>.\<close>

fun show_nat :: "nat \<Rightarrow> string" where
  "show_nat n =
     (if n < 10 then [hex_digit n] else show_nat (n div 10) @ [hex_digit (n mod 10)])"

declare show_nat.simps [simp del]

text \<open>A byte written to the output stream as it is (\<^verbatim>\<open>fwrite\<close>, \<^verbatim>\<open>%c\<close>).\<close>

definition byte_char :: "byte \<Rightarrow> char" where
  "byte_char b = char_of (unat b)"

subsection \<open>The sample buffer\<close>

text \<open>
  The buffer is the list of the bytes read from the device; a pointer into it is its
  offset from the start of the buffer, an \<open>int\<close>, since the source's pointer runs below
  the start. A read outside the buffer is undefined in C and is \<open>Inl OutOfBounds\<close> here.
\<close>

definition peek :: "byte list \<Rightarrow> int \<Rightarrow> error + byte" where
  "peek buf k = (if 0 \<le> k \<and> k < int (length buf) then Inr (buf ! nat k) else Inl OutOfBounds)"

text \<open>\<open>peek_range buf k n\<close>: the \<open>n\<close> bytes from offset \<open>k\<close> on, as \<^verbatim>\<open>fwrite\<close> reads them.\<close>

fun peek_range :: "byte list \<Rightarrow> int \<Rightarrow> nat \<Rightarrow> error + byte list" where
  "peek_range buf k 0 = Inr []"
| "peek_range buf k (Suc n) =
     (case peek buf k of
        Inl e \<Rightarrow> Inl e
      | Inr b \<Rightarrow> (case peek_range buf (k + 1) n of Inl e \<Rightarrow> Inl e | Inr bs \<Rightarrow> Inr (b # bs)))"

text \<open>
  \<^verbatim>\<open>for(j = 0; j < g; j += 1) printf("%02X", *(ptr - (g - j)));\<close> over the list of the
  values of \<open>j\<close>. The result is the output so far and the fault that ended the loop, if any.
\<close>

fun hex_group :: "byte list \<Rightarrow> int \<Rightarrow> nat \<Rightarrow> nat list \<Rightarrow> string \<Rightarrow> error option \<times> string" where
  "hex_group buf ptr g [] out = (None, out)"
| "hex_group buf ptr g (j # js) out =
     (case peek buf (ptr - int (g - j)) of
        Inl e \<Rightarrow> (Some e, out)
      | Inr b \<Rightarrow> hex_group buf ptr g js (out @ hex02 b))"

text \<open>
  The loop of lines 447 to 459, by the number of iterations left. In raw mode the pointer
  is decremented at line 450 and again at line 458.
\<close>

fun dump_loop :: "bool \<Rightarrow> byte list \<Rightarrow> nat \<Rightarrow> nat \<Rightarrow> int \<Rightarrow> string \<Rightarrow> error option \<times> string" where
  "dump_loop is_raw buf g 0 ptr out = (None, out)"
| "dump_loop is_raw buf g (Suc n) ptr out =
     (if is_raw then
        (case peek_range buf (ptr - int g) g of
           Inl e \<Rightarrow> (Some e, out)
         | Inr bs \<Rightarrow> dump_loop is_raw buf g n (ptr - int g - int g) (out @ map byte_char bs))
      else
        (case hex_group buf ptr g [0..<g] out of
           (Some e, out') \<Rightarrow> (Some e, out')
         | (None, out') \<Rightarrow> dump_loop is_raw buf g n (ptr - int g) (out' @ [CHR 0x0A])))"

text \<open>
  Lines 445 to 459: \<open>ptr\<close> starts at \<^verbatim>\<open>&buf[(capture_samples * cfg->num_groups_enabled) - 1]\<close>,
  the index computed in \<^verbatim>\<open>uint32_t\<close>.
\<close>

definition dump :: "cfg \<Rightarrow> byte list \<Rightarrow> u32 \<Rightarrow> error option \<times> string" where
  "dump c buf capture_samples =
     dump_loop (raw c) buf (unat (num_groups_enabled c)) (unat capture_samples)
       (int (unat (capture_samples * num_groups_enabled c - 1))) []"

subsection \<open>VCD output\<close>

definition bit_digit :: "bool \<Rightarrow> char" where
  "bit_digit b = (if b then CHR ''1'' else CHR ''0'')"

definition write_vcd_value :: "cfg \<Rightarrow> nat \<Rightarrow> u32 \<Rightarrow> string" where
  "write_vcd_value c vali sample =
     (let vv = vcd_values c ! vali in
      if num_bits vv = 1 then
        [bit_digit (sample AND mask_v vv \<noteq> 0), char_of (33 + vali), CHR 0x0A]
      else
        ''b'' @ map (\<lambda>biti. bit_digit (sample AND bitmasks vv ! biti \<noteq> 0)) [0..<num_bits vv]
          @ [CHR '' '', char_of (33 + vali), CHR 0x0A])"

text \<open>
  The time-scale loop of lines 313 to 320. The \<^verbatim>\<open>double\<close>s are modelled by real
  numbers: for a divisor and a frequency of at least 1 (and below \<open>2\<^sup>3\<^sup>2\<close>) every product
  \<open>divisor * time_scale\<close> the loop forms is an integer below \<open>2\<^sup>5\<^sup>3\<close>, hence exact, and the
  rounded quotient is below 100 exactly when the real one is. For a divisor or a frequency of
  0 the real loop does not end (the result is \<open>None\<close>); \<^verbatim>\<open>main\<close> never reaches
  \<^verbatim>\<open>write_vcd\<close> with either: it exits on a frequency of 0, and \<^verbatim>\<open>cmd_divider\<close>
  rejects \<^verbatim>\<open>clk_divisor - 1\<close> for a divisor of 0.
\<close>

partial_function (option) scale_loop :: "real \<Rightarrow> real \<Rightarrow> real \<Rightarrow> nat \<Rightarrow> (real \<times> nat) option" where
  "scale_loop divisor freq time_scale ntens =
     (if (divisor * time_scale) / freq < 100
      then scale_loop divisor freq (time_scale * 10) (ntens + 1)
      else Some (time_scale, ntens))"

declare scale_loop.simps [code]

definition units :: "string list" where
  "units = [''s'', ''ms'', ''us'', ''ns'', ''ps'', ''fs'']"

definition tens :: "nat list" where
  "tens = [1, 10, 100]"

text \<open>
  Lines 313 to 326: the period in time units and the text of the time scale
  (\<^verbatim>\<open>"%u%s"\<close> of \<^verbatim>\<open>unit_scale\<close> and \<^verbatim>\<open>units[unit]\<close>).
\<close>

definition vcd_timescale :: "cfg \<Rightarrow> (error + real \<times> string) option" where
  "vcd_timescale c =
     (let divisor = real (unat (clk_divisor c)); freq = real (unat (clk_freq_hz c)) in
      case scale_loop divisor freq 1 0 of
        None \<Rightarrow> None
      | Some (time_scale, ntens) \<Rightarrow>
          let period = (divisor * time_scale) / freq;
              unit = ntens div 3;
              unit_scale = tens ! (ntens mod 3)
          in if \<not> unit < 6 then Some (Inl AssertFail)
             else Some (Inr (period, show_nat unit_scale @ units ! unit)))"

text \<open>Lines 332 to 344; \<open>date\<close> is the text \<^verbatim>\<open>ctime\<close> returns.\<close>

definition vcd_header :: "string \<Rightarrow> cfg \<Rightarrow> string \<Rightarrow> string" where
  "vcd_header date c timescale =
     ''$date'' @ [CHR 0x0A] @ ''  '' @ date @ ''$end'' @ [CHR 0x0A]
     @ ''$version'' @ [CHR 0x0A] @ ''   Sump dumper'' @ [CHR 0x0A] @ ''$end'' @ [CHR 0x0A]
     @ ''$timescale '' @ timescale @ '' $end'' @ [CHR 0x0A]
     @ concat (map (\<lambda>vali. ''$var wire '' @ show_nat (num_bits (vcd_values c ! vali)) @ '' ''
                      @ [char_of (33 + vali)] @ '' '' @ name (vcd_values c ! vali) @ '' $end''
                      @ [CHR 0x0A]) [0..<num_values c])
     @ ''$enddefinitions $end'' @ [CHR 0x0A]
     @ ''$dumpvars'' @ [CHR 0x0A]
     @ concat (map (\<lambda>vali. write_vcd_value c vali 0) [0..<num_values c])
     @ ''$end'' @ [CHR 0x0A]"

text \<open>
  Lines 350 to 354: the bytes of one sample gathered into \<open>cur\<close>, over the list of the
  values of \<open>j\<close>.
\<close>

fun vcd_cur :: "byte list \<Rightarrow> int \<Rightarrow> nat \<Rightarrow> nat list \<Rightarrow> u32 \<Rightarrow> error + u32" where
  "vcd_cur buf ptr g [] cur = Inr cur"
| "vcd_cur buf ptr g (j # js) cur =
     (case peek buf (ptr - int (g - j)) of
        Inl e \<Rightarrow> Inl e
      | Inr b \<Rightarrow> vcd_cur buf ptr g js (push_bit 8 cur OR ucast b))"

text \<open>
  The value a real number has as a \<^verbatim>\<open>double\<close>: it is rounded to 53 significant bits, to
  the nearest such number, a tie going to the even one. Overflow and subnormal numbers are
  left out: the quotient and the products that \<^verbatim>\<open>write_vcd\<close> rounds are zero or lie
  between 1 and \<open>2\<^sup>6\<^sup>4\<close>.
\<close>

definition round_even :: "real \<Rightarrow> int" where
  "round_even x =
     (let f = \<lfloor>x\<rfloor>; r = x - of_int f in
      if r < 1 / 2 then f else if 1 / 2 < r then f + 1 else if even f then f else f + 1)"

definition to_double :: "real \<Rightarrow> real" where
  "to_double x =
     (if x = 0 then 0
      else let u = 2 powr (of_int \<lfloor>log 2 \<bar>x\<bar>\<rfloor> - 52) in of_int (round_even (x / u)) * u)"

text \<open>
  Line 364: \<^verbatim>\<open>(unsigned int)((double)i * period)\<close>, for the \<^verbatim>\<open>double\<close> \<open>period\<close>. The
  index is below \<open>2\<^sup>3\<^sup>2\<close> and so exact as a \<^verbatim>\<open>double\<close>; the product is rounded and then
  truncated. The conversion is undefined for a product of \<open>2\<^sup>3\<^sup>2\<close> or more.
\<close>

definition cur_time :: "nat \<Rightarrow> real \<Rightarrow> error + nat" where
  "cur_time i period =
     (let x = to_double (real i * period) in
      if x < 2 ^ 32 then Inr (nat \<lfloor>x\<rfloor>) else Inl UndefinedConversion)"

text \<open>
  Lines 360 to 370: the loop over the values at sample \<open>i\<close>, with the flag
  \<open>written_time\<close>. The result is the output so far and the fault that ended the loop, if
  any.
\<close>

fun vcd_emit ::
  "cfg \<Rightarrow> real \<Rightarrow> u32 \<Rightarrow> nat \<Rightarrow> u32 \<Rightarrow> u32 \<Rightarrow> nat list \<Rightarrow> bool \<Rightarrow> string
     \<Rightarrow> error option \<times> string" where
  "vcd_emit c period num_samples i changed cur [] written_time out = (None, out)"
| "vcd_emit c period num_samples i changed cur (vali # valis) written_time out =
     (if of_nat i = num_samples - 1 \<or> changed AND mask_v (vcd_values c ! vali) \<noteq> 0 then
        (if \<not> written_time then
           (case cur_time i period of
              Inl e \<Rightarrow> (Some e, out)
            | Inr current_time \<Rightarrow>
                vcd_emit c period num_samples i changed cur valis True
                  (out @ ''#'' @ show_nat current_time @ [CHR 0x0A] @ write_vcd_value c vali cur))
         else vcd_emit c period num_samples i changed cur valis True
                (out @ write_vcd_value c vali cur))
      else vcd_emit c period num_samples i changed cur valis written_time out)"

text \<open>Lines 346 to 373: the loop over the samples, over the list of the values of \<open>i\<close>.\<close>

fun vcd_samples ::
  "cfg \<Rightarrow> real \<Rightarrow> byte list \<Rightarrow> u32 \<Rightarrow> nat list \<Rightarrow> int \<Rightarrow> u32 \<Rightarrow> string \<Rightarrow> error option \<times> string" where
  "vcd_samples c period buf num_samples [] ptr prev out = (None, out)"
| "vcd_samples c period buf num_samples (i # is) ptr prev out =
     (case vcd_cur buf ptr (unat (num_groups_enabled c)) [0..<unat (num_groups_enabled c)] 0 of
        Inl e \<Rightarrow> (Some e, out)
      | Inr cur \<Rightarrow>
          (case vcd_emit c period num_samples i (prev XOR cur) cur [0..<num_values c] False out of
             (Some e, out') \<Rightarrow> (Some e, out')
           | (None, out') \<Rightarrow>
               vcd_samples c period buf num_samples is
                 (ptr - int (unat (num_groups_enabled c))) cur out'))"

text \<open>
  \<^verbatim>\<open>write_vcd\<close>. \<open>vcd_timescale\<close> gives the period as the real quotient; the
  \<^verbatim>\<open>double\<close> of line 321 is that quotient rounded, the numerator being exact.
\<close>

definition write_vcd :: "string \<Rightarrow> cfg \<Rightarrow> byte list \<Rightarrow> u32 \<Rightarrow> (error option \<times> string) option" where
  "write_vcd date c sample_buf num_samples =
     (case vcd_timescale c of
        None \<Rightarrow> None
      | Some (Inl e) \<Rightarrow> Some (Some e, [])
      | Some (Inr (period, timescale)) \<Rightarrow>
          Some (vcd_samples c (to_double period) sample_buf num_samples [0..<unat num_samples]
                  (int (unat (num_samples * num_groups_enabled c - 1))) 0
                  (vcd_header date c timescale)))"

subsection \<open>The capture\<close>

text \<open>A command is encoded and written; a failed assertion of the encoder ends the run.\<close>

definition send :: "error + cmd \<Rightarrow> tty \<Rightarrow> (error + unit) \<times> tty" where
  "send r = (case r of Inl e \<Rightarrow> lift_io (Inl e) | Inr c \<Rightarrow> write_tty c)"

text \<open>The body of the loop of lines 408 to 415, over the list of the values of \<open>i\<close>.\<close>

fun idle_stages :: "u32 list \<Rightarrow> tty \<Rightarrow> (error + unit) \<times> tty" where
  "idle_stages [] = lift_io (Inr ())"
| "idle_stages (i # is) =
     bind_io (send (cmd_trig_mask i 0)) (\<lambda>_.
     bind_io (send (cmd_trig_value i 0)) (\<lambda>_.
     bind_io (send (cmd_trig_cfg i 0 3 0 False False)) (\<lambda>_.
     idle_stages is)))"

definition set_trigger :: "cfg \<Rightarrow> tty \<Rightarrow> (error + unit) \<times> tty" where
  "set_trigger c =
     (if trigger_mask c = 0 then
        bind_io (send (cmd_trig_mask 0 0)) (\<lambda>_.
        bind_io (send (cmd_trig_value 0 0)) (\<lambda>_.
        send (cmd_trig_cfg 0 0 0 0 False True)))
      else
        bind_io (send (cmd_trig_mask 0 (trigger_mask c))) (\<lambda>_.
        bind_io (send (cmd_trig_value 0 (trigger_value c))) (\<lambda>_.
        bind_io (send (cmd_trig_cfg 0 0 0 0 False True)) (\<lambda>_.
        idle_stages [1, 2, 3]))))"

text \<open>
  Lines 378 to 439 of \<^verbatim>\<open>capture\<close>: the commands and the read of the sample buffer. The
  result is \<open>capture_samples\<close> and the buffer. \<^verbatim>\<open>malloc\<close> is taken to succeed.
\<close>

definition capture_io :: "cfg \<Rightarrow> tty \<Rightarrow> (error + u32 \<times> byte list) \<times> tty" where
  "capture_io c =
     (let group_dis = NOT (group_enable c) AND group_mask c in
      bind_io (write_times 5 cmd_reset) (\<lambda>_.
      bind_io (send (cmd_divider (clk_divisor c - 1))) (\<lambda>_.
      bind_io (set_trigger c) (\<lambda>_.
      if num_groups_enabled c = 0 then lift_io (Inl DivByZero)
      else
        let max_samples = sample_memory c div num_groups_enabled c;
            capture_samples = (if samples c > max_samples then max_samples else samples c);
            before_samples =
              (if before_trig c > capture_samples then capture_samples else before_trig c)
        in
        bind_io (write_tty (cmd_counts (ucast (capture_samples div 4))
                                       (ucast ((capture_samples - before_samples) div 4)))) (\<lambda>_.
        bind_io (send (cmd_flags group_dis False False False False (rle c))) (\<lambda>_.
        bind_io (write_tty cmd_run) (\<lambda>_.
        bind_io (read_tty (unat (capture_samples * num_groups_enabled c))) (\<lambda>buf.
        lift_io (Inr (capture_samples, buf))))))))))"

text \<open>
  \<^verbatim>\<open>capture\<close>: the exit status (\<open>None\<close> for a normal return), what was written to the
  standard output, and the transport. The result is \<open>None\<close> when the time-scale loop of
  \<^verbatim>\<open>write_vcd\<close> does not end.
\<close>

definition capture :: "string \<Rightarrow> cfg \<Rightarrow> tty \<Rightarrow> ((error option \<times> string) \<times> tty) option" where
  "capture date c t =
     (case capture_io c t of
        (Inl e, t') \<Rightarrow> Some ((Some e, []), t')
      | (Inr (capture_samples, buf), t') \<Rightarrow>
          if num_values c \<noteq> 0 then
            (case write_vcd date c buf capture_samples of
               None \<Rightarrow> None
             | Some r \<Rightarrow> Some (r, t'))
          else Some (dump c buf capture_samples, t'))"

subsection \<open>The command line\<close>

text \<open>
  \<^verbatim>\<open>struct args\<close> is modelled by the list of the arguments from \<^verbatim>\<open>pos\<close> on. The
  callback \<^verbatim>\<open>err\<close> is \<^verbatim>\<open>argerr\<close>, which does not return: \<open>Inl ArgError\<close>.

  \<^verbatim>\<open>strtoull(s, &end, 0)\<close> belongs to the C library and is a parameter of the model: a
  function from the text to the number read and the count of characters it consumed, so that
  \<^verbatim>\<open>end\<close> is the text without that many characters and \<^verbatim>\<open>end == s\<close> is a count of 0.
\<close>

type_synonym strtoull = "string \<Rightarrow> nat \<times> nat"

definition UINT32_MAX :: nat where
  "UINT32_MAX = 4294967295"

definition args_pop :: "string list \<Rightarrow> string option \<times> string list" where
  "args_pop args = (case args of [] \<Rightarrow> (None, []) | a # rest \<Rightarrow> (Some a, rest))"

definition args_number :: "strtoull \<Rightarrow> string list \<Rightarrow> error + u32 \<times> string list" where
  "args_number st args =
     (case args_pop args of
        (None, _) \<Rightarrow> Inl ArgError
      | (Some arg, rest) \<Rightarrow>
          let (n, k) = st arg; end = drop k arg in
          if k = 0 \<or> end \<noteq> [] \<or> n > UINT32_MAX then Inl ArgError
          else Inr (of_nat n, rest))"

definition lower_char :: "char \<Rightarrow> char" where
  "lower_char ch =
     (let n = (of_char ch :: nat) in if 65 \<le> n \<and> n \<le> 90 then char_of (n + 32) else ch)"

text \<open>\<^verbatim>\<open>strcasecmp(a, b) != 0\<close>\<close>

definition strcasecmp_differ :: "string \<Rightarrow> string \<Rightarrow> bool" where
  "strcasecmp_differ a b = (map lower_char a \<noteq> map lower_char b)"

definition args_si_unit :: "strtoull \<Rightarrow> string \<Rightarrow> string list \<Rightarrow> error + u32 \<times> string list" where
  "args_si_unit st unit args =
     (case args_pop args of
        (None, _) \<Rightarrow> Inl ArgError
      | (Some arg, rest) \<Rightarrow>
          let (n, k) = st arg; end = drop k arg in
          if k = 0 \<or> n > UINT32_MAX then Inl ArgError
          else
            (case (case end of
                     [] \<Rightarrow> Inr (n, end)
                   | ch # end' \<Rightarrow>
                       if ch = CHR ''M'' \<or> ch = CHR ''m'' then Inr (n * 1000000, end')
                       else if ch = CHR ''K'' \<or> ch = CHR ''k'' then Inr (n * 1000, end')
                       else Inl ArgError) of
               Inl e \<Rightarrow> Inl e
             | Inr (n', end'') \<Rightarrow>
                 if n' > UINT32_MAX then Inl ArgError
                 else if end'' \<noteq> [] \<and> strcasecmp_differ end'' unit then Inl ArgError
                 else Inr (of_nat n', rest)))"

definition args_numeqnum :: "strtoull \<Rightarrow> string list \<Rightarrow> error + (u32 \<times> u32) \<times> string list" where
  "args_numeqnum st args =
     (case args_pop args of
        (None, _) \<Rightarrow> Inl ArgError
      | (Some arg, rest) \<Rightarrow>
          let (n0, k0) = st arg; end = drop k0 arg in
          if k0 = 0 \<or> take 1 end \<noteq> ''='' \<or> n0 > UINT32_MAX then Inl ArgError
          else
            let arg' = drop 1 end; (n1, k1) = st arg'; end' = drop k1 arg' in
            if k1 = 0 \<or> end' \<noteq> [] \<or> n1 > UINT32_MAX then Inl ArgError
            else Inr ((of_nat n0, of_nat n1), rest))"

text \<open>
  The loop of lines 594 to 603 over the 32 bits of \<open>n\<close>, most significant first, by the
  number of iterations left.
\<close>

fun vcd_bits :: "nat \<Rightarrow> u32 \<Rightarrow> u32 \<Rightarrow> vcd_value \<Rightarrow> error + vcd_value" where
  "vcd_bits 0 tm n vv = Inr vv"
| "vcd_bits (Suc i) tm n vv =
     (if tm AND n \<noteq> 0 then
        (if num_bits vv \<ge> MAX_VCD_VALUE_BITS then Inl ArgError
         else vcd_bits i (drop_bit 1 tm) n
                (vv\<lparr>bitmasks := (bitmasks vv)[num_bits vv := tm], num_bits := num_bits vv + 1\<rparr>))
      else vcd_bits i (drop_bit 1 tm) n vv)"

text \<open>
  The \<^verbatim>\<open>do ... while(p[0] == ',')\<close> loop of lines 584 to 606. The next round starts at
  the comma itself (\<^verbatim>\<open>p = end\<close>).
\<close>

function vcd_masks :: "strtoull \<Rightarrow> string \<Rightarrow> vcd_value \<Rightarrow> error + vcd_value" where
  "vcd_masks st p vv =
     (let (n, k) = st p in
      if k = 0 \<or> n > UINT32_MAX then Inl ArgError
      else
        (case vcd_bits 32 0x80000000 (of_nat n) (vv\<lparr>mask_v := mask_v vv OR of_nat n\<rparr>) of
           Inl e \<Rightarrow> Inl e
         | Inr vv' \<Rightarrow>
             if take 1 (drop k p) = '','' then vcd_masks st (drop k p) vv' else Inr vv'))"
  by pat_completeness auto
termination
proof (relation "measure (\<lambda>(st, p, vv). length p)", goal_cases)
  case 1
  show ?case by simp
next
  case (2 st p vv x n k vv')
  then have "drop k p \<noteq> []" and "0 < k" by auto
  then show ?case by simp
qed

declare vcd_masks.simps [simp del]

text \<open>The scan for \<^verbatim>\<open>'='\<close> of lines 568 to 574: its offset, if there is one.\<close>

fun find_eq :: "string \<Rightarrow> nat option" where
  "find_eq [] = None"
| "find_eq (ch # p) =
     (if ch = CHR ''='' then Some 0 else map_option Suc (find_eq p))"

definition args_vcd_value :: "strtoull \<Rightarrow> vcd_value \<Rightarrow> string list \<Rightarrow> error + vcd_value \<times> string list" where
  "args_vcd_value st vv args =
     (case args_pop args of
        (None, _) \<Rightarrow> Inl ArgError
      | (Some arg, rest) \<Rightarrow>
          (case find_eq arg of
             None \<Rightarrow> Inl ArgError
           | Some n \<Rightarrow>
               if n = 0 \<or> n > MAX_VCD_NAME_LEN then Inl ArgError
               else
                 (case vcd_masks st (drop (n + 1) arg) (vv\<lparr>name := take n arg, mask_v := 0\<rparr>) of
                    Inl e \<Rightarrow> Inl e
                  | Inr vv' \<Rightarrow> Inr (vv', rest))))"

text \<open>An entry of \<^verbatim>\<open>cfg.vcd.values\<close> before it is filled in: all zero.\<close>

definition vcd_value0 :: vcd_value where
  "vcd_value0 = \<lparr>name = [], mask_v = 0, num_bits = 0, bitmasks = replicate MAX_VCD_VALUE_BITS 0\<rparr>"

text \<open>The initial configuration of \<^verbatim>\<open>main\<close>; the fields it does not name are zero.\<close>

definition cfg_init :: cfg where
  "cfg_init =
     \<lparr>group_enable = 0, trigger_mask = 0, trigger_value = 0, clk_divisor = 1, samples = 0,
      before_trig = 4, rle = False, raw = False, ext_meta = False,
      clk_freq_hz = 100000000, sample_memory = push_bit 16 1, num_probes = 32,
      vcd_values = [], max_groups = 0, group_mask = 0, num_groups_enabled = 0\<rparr>"

text \<open>
  One round of the option loop of lines 666 to 714, on the configuration and the local
  \<open>after_trig\<close>: the option is popped and its handler run.
\<close>

definition parse_opt ::
  "strtoull \<Rightarrow> string \<Rightarrow> string list \<Rightarrow> cfg \<times> u32 \<Rightarrow> error + (cfg \<times> u32) \<times> string list" where
  "parse_opt st opt args s =
     (let c = fst s; after_trig = snd s in
      if opt = ''groups'' then
        map_sum id (\<lambda>(v, rest). ((c\<lparr>group_enable := v\<rparr>, after_trig), rest)) (args_number st args)
      else if opt = ''trigger'' then
        map_sum id (\<lambda>((m, v), rest). ((c\<lparr>trigger_mask := m, trigger_value := v\<rparr>, after_trig), rest))
          (args_numeqnum st args)
      else if opt = ''divisor'' then
        map_sum id (\<lambda>(v, rest). ((c\<lparr>clk_divisor := v\<rparr>, after_trig), rest)) (args_number st args)
      else if opt = ''samples'' then
        map_sum id (\<lambda>(v, rest). ((c\<lparr>samples := v\<rparr>, after_trig), rest)) (args_number st args)
      else if opt = ''before'' then
        map_sum id (\<lambda>(v, rest). ((c\<lparr>before_trig := v\<rparr>, after_trig), rest)) (args_number st args)
      else if opt = ''after'' then
        map_sum id (\<lambda>(v, rest). ((c, v), rest)) (args_number st args)
      else if opt = ''rle'' then Inr ((c\<lparr>rle := True\<rparr>, after_trig), args)
      else if opt = ''raw'' then Inr ((c\<lparr>raw := True\<rparr>, after_trig), args)
      else if opt = ''clk_freq'' then
        map_sum id (\<lambda>(v, rest). ((c\<lparr>clk_freq_hz := v\<rparr>, after_trig), rest))
          (args_si_unit st ''hz'' args)
      else if opt = ''sample_memory'' then
        map_sum id (\<lambda>(v, rest). ((c\<lparr>sample_memory := v\<rparr>, after_trig), rest))
          (args_si_unit st ''B'' args)
      else if opt = ''num_probes'' then
        map_sum id (\<lambda>(v, rest). ((c\<lparr>num_probes := v\<rparr>, after_trig), rest)) (args_number st args)
      else if opt = ''extmeta'' then Inr ((c\<lparr>ext_meta := False\<rparr>, after_trig), args)
      else if opt = ''vcd'' then
        (if num_values c = MAX_VCD_VALUES then Inl ArgError
         else map_sum id (\<lambda>(vv, rest). ((c\<lparr>vcd_values := vcd_values c @ [vv]\<rparr>, after_trig), rest))
                (args_vcd_value st vcd_value0 args))
      else Inl ArgError)"

text \<open>
  The option loop of lines 666 to 714. It ends because every round pops at least the option:
  the list of the arguments still to read gets shorter.
\<close>

function parse_opts :: "strtoull \<Rightarrow> string list \<Rightarrow> cfg \<times> u32 \<Rightarrow> error + cfg \<times> u32" where
  "parse_opts st args s =
     (case args_pop args of
        (None, _) \<Rightarrow> Inr s
      | (Some opt, rest) \<Rightarrow>
          (case parse_opt st opt rest s of
             Inl e \<Rightarrow> Inl e
           | Inr (s', rest') \<Rightarrow> parse_opts st rest' s'))"
  by pat_completeness auto
termination
proof -
  have pop: "length rest < length args" if "args_pop args = (Some a, rest)" for args a rest
    using that by (cases args) (auto simp: args_pop_def)
  have pop_le: "length rest \<le> length args" if "args_pop args = (r, rest)" for args r rest
    using that by (cases args) (auto simp: args_pop_def)
  have num: "length rest \<le> length args" if "args_number st args = Inr (v, rest)" for st args v rest
  proof (cases args)
    case Nil
    with that show ?thesis by (simp add: args_number_def args_pop_def)
  next
    case (Cons a as)
    with that have "rest = as"
      by (simp add: args_number_def args_pop_def Let_def split: prod.splits if_splits)
    with Cons show ?thesis by simp
  qed
  have si: "length rest \<le> length args" if "args_si_unit st u args = Inr (v, rest)" for st u args v rest
  proof (cases args)
    case Nil
    with that show ?thesis by (simp add: args_si_unit_def args_pop_def)
  next
    case (Cons a as)
    with that have "rest = as"
      by (simp add: args_si_unit_def args_pop_def Let_def
               split: prod.splits if_splits sum.splits)
    with Cons show ?thesis by simp
  qed
  have neq: "length rest \<le> length args" if "args_numeqnum st args = Inr (v, rest)" for st args v rest
  proof (cases args)
    case Nil
    with that show ?thesis by (simp add: args_numeqnum_def args_pop_def)
  next
    case (Cons a as)
    with that have "rest = as"
      by (simp add: args_numeqnum_def args_pop_def Let_def split: prod.splits if_splits)
    with Cons show ?thesis by simp
  qed
  have vcd: "length rest \<le> length args" if "args_vcd_value st vv args = Inr (v, rest)" for st vv args v rest
  proof (cases args)
    case Nil
    with that show ?thesis by (simp add: args_vcd_value_def args_pop_def)
  next
    case (Cons a as)
    with that have "rest = as"
      by (simp add: args_vcd_value_def args_pop_def
               split: option.splits if_splits sum.splits)
    with Cons show ?thesis by simp
  qed
  have ms: "\<exists>z. x = Inr z \<and> y = g z" if "map_sum f g x = Inr y" for f g x y
    using that by (cases x) auto
  have opt: "length rest' \<le> length rest" if "parse_opt st opt rest s = Inr (s', rest')"
    for st opt rest s s' rest'
    using that unfolding parse_opt_def Let_def
    by (auto split: if_splits dest!: ms dest: num si neq vcd)
  show ?thesis
  proof (relation "measure (\<lambda>(st, args, s). length args)", goal_cases)
    case 1
    show ?case by simp
  next
    case (2 st args s x1 rest opt x2 s' rest')
    then show ?case using pop [of args opt rest] opt [of st opt rest s s' rest'] by simp
  qed
qed

declare parse_opts.simps [simp del]

text \<open>
  \<^verbatim>\<open>main\<close>. \<open>argv\<close> is the whole argument vector; \<open>dev\<close> is the transport that
  \<^verbatim>\<open>open\<close> and \<^verbatim>\<open>setup_serial\<close> give, \<open>None\<close> when one of them fails. The result is
  the exit status, the standard output and the transport, if it was opened.
\<close>

definition sump_main ::
  "strtoull \<Rightarrow> string \<Rightarrow> string list \<Rightarrow> tty option \<Rightarrow> ((error option \<times> string) \<times> tty option) option" where
  "sump_main st date argv dev =
     (if length argv < 2 then Some ((Some ArgError, []), None)
      else
        case parse_opts st (drop 2 argv) (cfg_init, 0xFFFFFFFF) of
          Inl e \<Rightarrow> Some ((Some e, []), None)
        | Inr (c, after_trig) \<Rightarrow>
            (case dev of
               None \<Rightarrow> Some ((Some OpenError, []), None)
             | Some t \<Rightarrow>
                 (case read_ident c t of
                    (Inl e, t1) \<Rightarrow> Some ((Some e, []), Some t1)
                  | (Inr c1, t1) \<Rightarrow>
                      (case derive after_trig c1 of
                         Inl e \<Rightarrow> Some ((Some e, []), Some t1)
                       | Inr c2 \<Rightarrow> map_option (\<lambda>(r, t2). (r, Some t2)) (capture date c2 t1)))))"

subsection \<open>Specification vocabulary\<close>

text \<open>
  The population count of a 32-bit word, in the words of the specification: the number of
  its set bits.
\<close>

definition popcount :: "u32 \<Rightarrow> nat" where
  "popcount w = length (filter (bit w) [0..<32])"

text \<open>
  \<open>no_get_meta t t'\<close>: the transport \<open>t'\<close> continues \<open>t\<close>, and none of the frames written
  in between is the get-metadata command.
\<close>

definition no_get_meta :: "tty \<Rightarrow> tty \<Rightarrow> bool" where
  "no_get_meta t t' = (\<exists>fs. sent t' = sent t @ fs \<and> frame cmd_get_meta \<notin> set fs)"


section \<open>Properties\<close>

subsection \<open>Command encoding\<close>

lemma ff_mask: "(0xFF :: 'a::len word) = mask 8"
  by (simp add: mask_eq_exp_minus_1)

lemma wire_byte: "(ucast (ucast (w AND 0xFF :: u32) :: byte) :: u32) = take_bit 8 w"
  unfolding ff_mask by (rule bit_word_eqI) (auto simp add: bit_simps)

lemma le32_join:
  "take_bit 8 m OR push_bit 8 (take_bit 8 (drop_bit 8 m))
     OR push_bit 16 (take_bit 8 (drop_bit 16 m)) OR push_bit 24 (take_bit 8 (drop_bit 24 m)) = (m::u32)"
proof (rule bit_word_eqI)
  fix n :: nat
  assume "n < LENGTH(32)"
  then have n: "n < 32" by simp
  show "bit (take_bit 8 m OR push_bit 8 (take_bit 8 (drop_bit 8 m))
     OR push_bit 16 (take_bit 8 (drop_bit 16 m)) OR push_bit 24 (take_bit 8 (drop_bit 24 m))) n = bit m n"
  proof (cases "bit m n")
    case False
    then show ?thesis by (simp add: bit_simps cong: conj_cong)
  next
    case True
    with n show ?thesis by (simp add: bit_simps cong: conj_cong) arith
  qed
qed

lemma stage_cases: "(stage::u32) \<le> 3 \<Longrightarrow> stage = 0 \<or> stage = 1 \<or> stage = 2 \<or> stage = 3"
proof -
  assume "stage \<le> 3"
  then have "unat stage \<le> 3" by (simp add: word_le_nat_alt)
  then have "unat stage = 0 \<or> unat stage = 1 \<or> unat stage = 2 \<or> unat stage = 3" by arith
  then have "of_nat (unat stage) = (of_nat 0 :: u32) \<or> of_nat (unat stage) = (of_nat 1 :: u32)
      \<or> of_nat (unat stage) = (of_nat 2 :: u32) \<or> of_nat (unat stage) = (of_nat 3 :: u32)"
    by presburger
  then show ?thesis by simp
qed

text \<open>
  C8. For every stage in \<open>{0,1,2,3}\<close> and every 32-bit mask \<open>m\<close>, \<open>cmd_trig_mask\<close> yields
  a frame of five bytes whose byte 0 is \<open>0xC0 | (stage << 2)\<close> and whose bytes 1 to 4,
  read as a little-endian 32-bit integer, are \<open>m\<close> again.
\<close>

theorem cmd_trig_mask_roundtrip:
  assumes "stage \<le> 3"
  shows "\<exists>c. cmd_trig_mask stage m = Inr c \<and> length (frame c) = 5
            \<and> (ucast (frame c ! 0) :: u32) = 0xC0 OR push_bit 2 stage
            \<and> le32_decode (tl (frame c)) = m"
proof -
  have op: "(ucast (ucast (0xC0 OR push_bit 2 stage :: u32) :: byte) :: u32) = 0xC0 OR push_bit 2 stage"
    using stage_cases [OF assms] by auto
  show ?thesis
    using assms by (simp add: cmd_trig_mask_def frame_def le32_decode_def op wire_byte le32_join)
qed

theorem cmd_trig_mask_roundtrip_witness:
  "(2::u32) \<le> 3 \<and> (\<exists>c. cmd_trig_mask 2 0x12345678 = Inr c \<and> length (frame c) = 5
            \<and> (ucast (frame c ! 0) :: u32) = 0xC8
            \<and> le32_decode (tl (frame c)) = 0x12345678)"
  using cmd_trig_mask_roundtrip [of 2 "0x12345678"] by simp

subsection \<open>Unfolding loops over numerals\<close>

lemma write_times_numeral:
  "write_times (numeral k) c t =
     (case write_tty c t of
        (Inl e, t') \<Rightarrow> (Inl e, t')
      | (Inr _, t') \<Rightarrow> write_times (pred_numeral k) c t')"
  by (simp add: numeral_eq_Suc)

lemma dump_loop_numeral:
  "dump_loop is_raw buf g (numeral k) ptr out =
     (if is_raw then
        (case peek_range buf (ptr - int g) g of
           Inl e \<Rightarrow> (Some e, out)
         | Inr bs \<Rightarrow>
             dump_loop is_raw buf g (pred_numeral k) (ptr - int g - int g) (out @ map byte_char bs))
      else
        (case hex_group buf ptr g [0..<g] out of
           (Some e, out') \<Rightarrow> (Some e, out')
         | (None, out') \<Rightarrow> dump_loop is_raw buf g (pred_numeral k) (ptr - int g) (out' @ [CHR 0x0A])))"
  by (simp add: numeral_eq_Suc)

lemma peek_range_numeral:
  "peek_range buf k (numeral n) =
     (case peek buf k of
        Inl e \<Rightarrow> Inl e
      | Inr b \<Rightarrow>
          (case peek_range buf (k + 1) (pred_numeral n) of Inl e \<Rightarrow> Inl e | Inr bs \<Rightarrow> Inr (b # bs)))"
  by (simp add: numeral_eq_Suc)

lemma peek_range_one:
  "peek_range buf k 1 = (case peek buf k of Inl e \<Rightarrow> Inl e | Inr b \<Rightarrow> Inr [b])"
  by (simp add: One_nat_def [symmetric] del: One_nat_def split: sum.splits)
    (simp split: sum.splits)

lemmas cmd_defs =
  cmd_reset_def cmd_run_def cmd_id_def cmd_get_meta_def cmd_divider_def cmd_counts_def
  cmd_flags_def cmd_trig_mask_def cmd_trig_value_def cmd_trig_cfg_def frame_def

lemmas io_defs = bind_io_def lift_io_def write_tty_def read_tty_def send_def

subsection \<open>The count of enabled groups\<close>

text \<open>
  C1 (the source departs from it). The configuration that the command line
  \<^verbatim>\<open>groups 2\<close> gives, with the default of 32 probes: the group mask is \<open>0xF\<close>, the
  enabled groups within the mask are \<open>2 AND 0xF\<close>, a single group, and
  \<open>num_groups_enabled\<close> comes out as 2. The loop of lines 737 to 739 counts the shifts
  that empty the word, which is the position of the highest enabled group, not the number
  of enabled groups.
\<close>

theorem num_groups_enabled_counts_shifts:
  "map_sum id (\<lambda>c. (group_enable c AND group_mask c, num_groups_enabled c))
     (derive 0xFFFFFFFF (cfg_init\<lparr>group_enable := 2\<rparr>)) = Inr (2, 2)
   \<and> popcount (2 AND 0xF) = 1"
  by (simp add: derive_def cfg_init_def Let_def count_groups.simps popcount_def upt_rec)

text \<open>
  C10 (the source departs from it). The command line \<^verbatim>\<open>groups 0x10\<close> with the default
  of 32 probes: \<open>group_enable\<close> is not zero, so it is not replaced by the mask \<open>0xF\<close>; no
  enabled group lies within the mask, \<open>num_groups_enabled\<close> is 0, and the default sample
  count at line 743 divides by it.
\<close>

theorem no_group_in_mask_divides_by_zero:
  "1 \<le> num_probes (cfg_init\<lparr>group_enable := 0x10\<rparr>)
   \<and> derive 0xFFFFFFFF (cfg_init\<lparr>group_enable := 0x10\<rparr>) = Inl DivByZero"
  by (simp add: derive_def cfg_init_def Let_def count_groups.simps)

subsection \<open>Hex and raw output\<close>

lemma derive_groups3_samples2:
  "derive 0xFFFFFFFF (cfg_init\<lparr>group_enable := 3, samples := 2\<rparr>)
   = Inr (cfg_init\<lparr>group_enable := 3, samples := 2, max_groups := 4, group_mask := 0xF,
                   num_groups_enabled := 2\<rparr>)"
  by (simp add: derive_def cfg_init_def Let_def count_groups.simps)

lemma capture_io_groups3_samples2:
  "capture_io (cfg_init\<lparr>group_enable := 3, samples := 2, max_groups := 4, group_mask := 0xF,
                         num_groups_enabled := 2\<rparr>)
     \<lparr>sent = [], incoming = [0x11, 0x22, 0x33, 0x44], wr_left = 12\<rparr>
   = (Inr (2, [0x11, 0x22, 0x33, 0x44]),
      \<lparr>sent = [[0], [0], [0], [0], [0], [0x80, 0, 0, 0, 0], [0xC0, 0, 0, 0, 0],
               [0xC1, 0, 0, 0, 0], [0xC2, 0, 0, 0, 8], [0x81, 0, 0, 0, 0],
               [0x82, 0x30, 0, 0, 0], [1]],
       incoming = [], wr_left = 0\<rparr>)"
  by (simp add: capture_io_def set_trigger_def cfg_init_def Let_def io_defs cmd_defs
        write_times_numeral)

text \<open>
  C2 (the source departs from it). The command line \<^verbatim>\<open>groups 3 samples 2\<close>: two
  samples of two bytes, which the device delivers as \<open>11 22 33 44\<close> (newest sample first).
  The claim gives the lines \<^verbatim>\<open>3344\<close> and \<^verbatim>\<open>1122\<close>. The source prints \<^verbatim>\<open>2233\<close>,
  the bytes at offsets 1 and 2, and then reads the byte before the buffer: \<open>ptr\<close> starts
  at the last byte, not one past it, so every sample is read one byte too low.
\<close>

theorem hex_dump_one_byte_low:
  "(case derive 0xFFFFFFFF (cfg_init\<lparr>group_enable := 3, samples := 2\<rparr>) of
      Inl e \<Rightarrow> None
    | Inr c \<Rightarrow>
        map_option fst
          (capture [] c \<lparr>sent = [], incoming = [0x11, 0x22, 0x33, 0x44], wr_left = 12\<rparr>))
   = Some (Some OutOfBounds, ''2233'' @ [CHR 0x0A])"
  by (simp add: derive_groups3_samples2 capture_def capture_io_groups3_samples2)
    (simp add: num_values_def dump_def cfg_init_def peek_def hex02_def hex_digit_def upt_rec
       dump_loop_numeral)

lemma hex_group_in_bounds:
  assumes "\<forall>j\<in>set js. 0 \<le> ptr - int (g - j) \<and> ptr - int (g - j) < int (length buf)"
  shows "fst (hex_group buf ptr g js out) = None"
  using assms by (induction js arbitrary: out) (auto simp: peek_def)

lemma hex_group_below_buffer:
  assumes "0 < g" and "ptr < int g"
  shows "fst (hex_group buf ptr g [0..<g] out) = Some OutOfBounds"
proof -
  from assms(1) have "[0..<g] = 0 # [1..<g]" by (simp add: upt_rec)
  with assms(2) show ?thesis by (simp add: peek_def)
qed

text \<open>
  In hex mode every capture of at least one sample ends in a read before the buffer: the
  last round starts at offset \<open>g - 1\<close> and reads from offset \<open>-1\<close> on.
\<close>

lemma dump_loop_hex_faults:
  assumes "0 < g" and "0 < n" and "int (n * g) \<le> int (length buf)"
  shows "fst (dump_loop False buf g n (int (n * g) - 1) out) = Some OutOfBounds"
  using assms(2,3)
proof (induction n arbitrary: out)
  case 0
  then show ?case by simp
next
  case (Suc n)
  show ?case
  proof (cases "n = 0")
    case True
    have "fst (hex_group buf (int g - 1) g [0..<g] out) = Some OutOfBounds"
      using assms(1) by (intro hex_group_below_buffer) simp_all
    with True show ?thesis by (auto split: prod.splits option.splits)
  next
    case False
    let ?ptr = "int (Suc n * g) - 1"
    have big: "(1::int) \<le> int g * int n"
    proof -
      from False assms(1) have "1 \<le> g * n" by (cases n; cases g) simp_all
      then have "int 1 \<le> int (g * n)" by (simp only: of_nat_le_iff)
      then show ?thesis by simp
    qed
    have inb: "\<forall>j\<in>set [0..<g]. 0 \<le> ?ptr - int (g - j) \<and> ?ptr - int (g - j) < int (length buf)"
      using Suc.prems(2) big assms(1) by (auto simp: algebra_simps)
    obtain r out' where hg: "hex_group buf ?ptr g [0..<g] out = (r, out')"
      by (cases "hex_group buf ?ptr g [0..<g] out")
    with hex_group_in_bounds [OF inb, of out] have r: "r = None" by simp
    have next_ptr: "?ptr - int g = int (n * g) - 1" by (simp add: algebra_simps)
    from Suc.prems(2) have "int (n * g) \<le> int (length buf)" by (simp add: algebra_simps)
    with False Suc.IH [of "out' @ [CHR 0x0A]"]
    have "fst (dump_loop False buf g n (int (n * g) - 1) (out' @ [CHR 0x0A])) = Some OutOfBounds"
      by simp
    with hg r next_ptr show ?thesis by simp
  qed
qed

lemma derive_groups1_samples4_raw:
  "derive 0xFFFFFFFF (cfg_init\<lparr>group_enable := 1, samples := 4, raw := True\<rparr>)
   = Inr (cfg_init\<lparr>group_enable := 1, samples := 4, raw := True, max_groups := 4,
                   group_mask := 0xF, num_groups_enabled := 1\<rparr>)"
  by (simp add: derive_def cfg_init_def Let_def count_groups.simps)

lemma capture_io_groups1_samples4_raw:
  "capture_io (cfg_init\<lparr>group_enable := 1, samples := 4, raw := True, max_groups := 4,
                         group_mask := 0xF, num_groups_enabled := 1\<rparr>)
     \<lparr>sent = [], incoming = [0x11, 0x22, 0x33, 0x44], wr_left = 12\<rparr>
   = (Inr (4, [0x11, 0x22, 0x33, 0x44]),
      \<lparr>sent = [[0], [0], [0], [0], [0], [0x80, 0, 0, 0, 0], [0xC0, 0, 0, 0, 0],
               [0xC1, 0, 0, 0, 0], [0xC2, 0, 0, 0, 8], [0x81, 1, 0, 0, 0],
               [0x82, 0x38, 0, 0, 0], [1]],
       incoming = [], wr_left = 0\<rparr>)"
  by (simp add: capture_io_def set_trigger_def cfg_init_def Let_def io_defs cmd_defs
        write_times_numeral)

text \<open>
  C3 (the source departs from it). The command line \<^verbatim>\<open>groups 1 samples 4 raw\<close>: four
  samples of one byte, delivered as \<open>11 22 33 44\<close>. The claim gives the output
  \<open>44 33 22 11\<close>. The source writes \<open>33\<close> and \<open>11\<close> and then reads before the buffer:
  besides starting one byte low, raw mode moves \<open>ptr\<close> back twice in every round (lines
  450 and 458), so every other sample is skipped.
\<close>

theorem raw_dump_skips_samples:
  "(case derive 0xFFFFFFFF (cfg_init\<lparr>group_enable := 1, samples := 4, raw := True\<rparr>) of
      Inl e \<Rightarrow> None
    | Inr c \<Rightarrow>
        map_option fst
          (capture [] c \<lparr>sent = [], incoming = [0x11, 0x22, 0x33, 0x44], wr_left = 12\<rparr>))
   = Some (Some OutOfBounds, map byte_char [0x33, 0x11])"
  by (simp add: derive_groups1_samples4_raw capture_def capture_io_groups1_samples4_raw)
    (simp add: num_values_def dump_def cfg_init_def peek_def peek_range_one
       dump_loop_numeral)

subsection \<open>Extended metadata\<close>

text \<open>
  C6 (the source departs from it). \<^verbatim>\<open>read_ident\<close> with extended metadata enabled, on
  the device bytes \<^verbatim>\<open>1ALS\<close>, the tag \<open>0x20\<close> (kind 1, field 0), the payload
  \<open>01 02 03 04\<close> and the terminator. The big-endian value of the payload is \<open>0x01020304\<close>.
  The source stores \<open>0x03020304\<close> in \<open>num_probes\<close>: line 265 takes the top byte from
  \<^verbatim>\<open>valb[2]\<close> again and never reads \<^verbatim>\<open>valb[0]\<close>.
\<close>

theorem meta_u32_drops_first_byte:
  "map_sum id num_probes
     (fst (read_ident (cfg_init\<lparr>ext_meta := True\<rparr>)
             \<lparr>sent = [], incoming = [0x31, 0x41, 0x4C, 0x53, 0x20, 0x01, 0x02, 0x03, 0x04, 0x00],
              wr_left = 7\<rparr>))
   = Inr 0x03020304"
  by (simp add: read_ident_def cfg_init_def io_defs cmd_defs write_times_numeral ident_magic_def
        read_meta.simps meta_store_def meta_u32_def)

subsection \<open>The VCD time scale\<close>

lemma scale_loop_run:
  assumes "\<forall>j<m. d * 10 ^ (k + j) / f < 100" and "\<not> d * 10 ^ (k + m) / f < 100"
  shows "scale_loop d f (10 ^ k) k = Some (10 ^ (k + m), k + m)"
  using assms
proof (induction m arbitrary: k)
  case 0
  then show ?case by (subst scale_loop.simps) simp
next
  case (Suc m)
  from Suc.prems(1) have now: "d * 10 ^ k / f < 100" by (metis add.right_neutral zero_less_Suc)
  have later: "\<forall>j<m. d * 10 ^ (Suc k + j) / f < 100"
  proof (intro allI impI)
    fix j assume "j < m"
    then have "Suc j < Suc m" by simp
    with Suc.prems(1) have "d * 10 ^ (k + Suc j) / f < 100" by blast
    then show "d * 10 ^ (Suc k + j) / f < 100" by simp
  qed
  from Suc.prems(2) have stop: "\<not> d * 10 ^ (Suc k + m) / f < 100" by simp
  have "scale_loop d f (10 ^ k) k = scale_loop d f (10 ^ Suc k) (Suc k)"
    using now by (subst scale_loop.simps) (simp add: mult.commute)
  also have "\<dots> = Some (10 ^ (Suc k + m), Suc k + m)"
    by (rule Suc.IH [OF later stop])
  finally show ?case by simp
qed

lemma scale_loop_least:
  assumes "\<not> d * 10 ^ n / f < 100"
  shows "scale_loop d f 1 0
           = Some (10 ^ (LEAST k. \<not> d * 10 ^ k / f < 100), LEAST k. \<not> d * 10 ^ k / f < 100)"
proof -
  let ?k = "LEAST k. \<not> d * 10 ^ k / f < 100"
  have stop: "\<not> d * 10 ^ (0 + ?k) / f < 100"
    using LeastI [of "\<lambda>k. \<not> d * 10 ^ k / f < 100", OF assms] by simp
  have before: "\<forall>j<?k. d * 10 ^ (0 + j) / f < 100"
    using not_less_Least [of _ "\<lambda>k. \<not> d * 10 ^ k / f < 100"] by auto
  from scale_loop_run [of ?k d 0 f, OF before stop] show ?thesis by simp
qed

lemma scale_loop_11:
  "scale_loop 11 100000000 1 0 = Some (1000000000, 9)"
proof -
  have before: "\<forall>j<9. (11::real) * 10 ^ (0 + j) / 100000000 < 100"
  proof (intro allI impI)
    fix j :: nat assume "j < 9"
    then have "j \<le> 8" by simp
    then have "(10::real) ^ j \<le> 10 ^ 8" by (intro power_increasing) simp_all
    then show "(11::real) * 10 ^ (0 + j) / 100000000 < 100" by simp
  qed
  have stop: "\<not> (11::real) * 10 ^ (0 + 9) / 100000000 < 100" by simp
  from scale_loop_run [OF before stop] show ?thesis by simp
qed

lemma show_nat_digit: "n < 10 \<Longrightarrow> show_nat n = [hex_digit n]"
  by (simp add: show_nat.simps)

lemma vcd_timescale_11:
  "vcd_timescale (cfg_init\<lparr>clk_divisor := 11\<rparr>) = Some (Inr (110, ''1ns''))"
  by (simp add: vcd_timescale_def cfg_init_def scale_loop_11 tens_def units_def
        show_nat_digit hex_digit_def)

text \<open>
  C5, counterexample. For a clock of 100 MHz and a divisor of 11 the time scale the source
  prints is not \<^verbatim>\<open>100ns\<close>.
\<close>

theorem timescale_11_not_100ns:
  "map_option (map_sum id snd) (vcd_timescale (cfg_init\<lparr>clk_divisor := 11\<rparr>))
     \<noteq> Some (Inr ''100ns'')"
  by (simp add: vcd_timescale_11)

text \<open>
  C5, as amended. For a divisor and a clock frequency other than zero the loop ends after
  \<open>k\<close> multiplications by ten, where \<open>k\<close> is the least number with
  \<open>divisor * 10\<^sup>k / freq \<ge> 100\<close>; that quotient is the period, and the time scale is printed
  as the multiplier \<open>tens[k mod 3]\<close>, one of 1, 10 and 100, followed by the unit
  \<open>units[k div 3]\<close>, with \<open>k div 3\<close> inside the table. For a clock of 100 MHz and a
  divisor of 11 the period is 110 time units, within \<open>[100, 1000)\<close>, and the time scale
  printed is \<^verbatim>\<open>1ns\<close>: nine steps, multiplier \<open>tens[0] = 1\<close>, unit \<open>units[3]\<close>.
\<close>

theorem vcd_timescale_least_power:
  "(clk_divisor c \<noteq> 0 \<and> clk_freq_hz c \<noteq> 0 \<longrightarrow>
      (\<exists>k. vcd_timescale c
              = Some (Inr (real (unat (clk_divisor c)) * 10 ^ k / real (unat (clk_freq_hz c)),
                           show_nat (tens ! (k mod 3)) @ units ! (k div 3)))
          \<and> 100 \<le> real (unat (clk_divisor c)) * 10 ^ k / real (unat (clk_freq_hz c))
          \<and> (\<forall>j<k. real (unat (clk_divisor c)) * 10 ^ j / real (unat (clk_freq_hz c)) < 100)
          \<and> tens ! (k mod 3) \<in> {1, 10, 100}
          \<and> k div 3 < length units))
   \<and> vcd_timescale (cfg_init\<lparr>clk_divisor := 11\<rparr>) = Some (Inr (110, ''1ns''))
   \<and> (100::real) \<le> 110 \<and> (110::real) < 1000"
proof (intro conjI impI)
  assume nz: "clk_divisor c \<noteq> 0 \<and> clk_freq_hz c \<noteq> 0"
  define d where "d = real (unat (clk_divisor c))"
  define f where "f = real (unat (clk_freq_hz c))"
  define k where "k = (LEAST k. \<not> d * 10 ^ k / f < 100)"
  from nz have "unat (clk_divisor c) \<noteq> 0" and "unat (clk_freq_hz c) \<noteq> 0"
    by (simp_all add: unat_eq_0)
  then have d1: "1 \<le> d" and f1: "0 < f" by (simp_all add: d_def f_def del: of_nat_unat)
  have "unat (clk_freq_hz c) < 2 ^ 32"
    using unsigned_less [of "clk_freq_hz c", where ?'a = nat] by simp
  then have "real (unat (clk_freq_hz c)) < 2 ^ 32"
    by (metis of_nat_less_iff of_nat_numeral of_nat_power)
  then have fb: "f < 4294967296" by (simp add: f_def del: of_nat_unat)
  have "100 * f \<le> 1 * 10 ^ 12" using fb by simp
  also have "\<dots> \<le> d * 10 ^ 12" using d1 by (intro mult_right_mono) simp_all
  finally have stop12: "\<not> d * 10 ^ 12 / f < 100" using f1 by (simp add: pos_divide_less_eq)
  have loop: "scale_loop d f 1 0 = Some (10 ^ k, k)"
    unfolding k_def by (rule scale_loop_least [OF stop12])
  have stop: "\<not> d * 10 ^ k / f < 100"
    unfolding k_def by (rule LeastI [of "\<lambda>k. \<not> d * 10 ^ k / f < 100", OF stop12])
  have before: "\<forall>j<k. d * 10 ^ j / f < 100"
    unfolding k_def using not_less_Least [of _ "\<lambda>k. \<not> d * 10 ^ k / f < 100"] by auto
  have "k \<le> 12" unfolding k_def by (rule Least_le [of "\<lambda>k. \<not> d * 10 ^ k / f < 100", OF stop12])
  then have unit: "k div 3 < 6" by simp
  have "k mod 3 = 0 \<or> k mod 3 = 1 \<or> k mod 3 = 2" by arith
  then have tens: "tens ! (k mod 3) \<in> {1, 10, 100}" by (auto simp: tens_def)
  have "vcd_timescale c = Some (Inr (d * 10 ^ k / f, show_nat (tens ! (k mod 3)) @ units ! (k div 3)))"
    using loop unit
    by (simp add: vcd_timescale_def d_def [symmetric] f_def [symmetric] del: of_nat_unat)
  with stop before tens unit
  show "\<exists>k. vcd_timescale c
              = Some (Inr (real (unat (clk_divisor c)) * 10 ^ k / real (unat (clk_freq_hz c)),
                           show_nat (tens ! (k mod 3)) @ units ! (k div 3)))
          \<and> 100 \<le> real (unat (clk_divisor c)) * 10 ^ k / real (unat (clk_freq_hz c))
          \<and> (\<forall>j<k. real (unat (clk_divisor c)) * 10 ^ j / real (unat (clk_freq_hz c)) < 100)
          \<and> tens ! (k mod 3) \<in> {1, 10, 100}
          \<and> k div 3 < length units"
    unfolding d_def f_def by (intro exI [of _ k]) (simp add: units_def not_less del: of_nat_unat)
next
  show "vcd_timescale (cfg_init\<lparr>clk_divisor := 11\<rparr>) = Some (Inr (110, ''1ns''))"
    by (rule vcd_timescale_11)
qed simp_all

theorem vcd_timescale_least_power_witness:
  "clk_divisor (cfg_init\<lparr>clk_divisor := 11\<rparr>) \<noteq> 0
   \<and> clk_freq_hz (cfg_init\<lparr>clk_divisor := 11\<rparr>) \<noteq> 0
   \<and> (\<exists>k. vcd_timescale (cfg_init\<lparr>clk_divisor := 11\<rparr>)
              = Some (Inr (real (unat (clk_divisor (cfg_init\<lparr>clk_divisor := 11\<rparr>))) * 10 ^ k
                             / real (unat (clk_freq_hz (cfg_init\<lparr>clk_divisor := 11\<rparr>))),
                           show_nat (tens ! (k mod 3)) @ units ! (k div 3)))
          \<and> 100 \<le> real (unat (clk_divisor (cfg_init\<lparr>clk_divisor := 11\<rparr>))) * 10 ^ k
                      / real (unat (clk_freq_hz (cfg_init\<lparr>clk_divisor := 11\<rparr>)))
          \<and> k div 3 < length units)"
proof -
  have "clk_divisor (cfg_init\<lparr>clk_divisor := 11\<rparr>) \<noteq> 0
        \<and> clk_freq_hz (cfg_init\<lparr>clk_divisor := 11\<rparr>) \<noteq> 0"
    by (simp add: cfg_init_def)
  with vcd_timescale_least_power [of "cfg_init\<lparr>clk_divisor := 11\<rparr>"] show ?thesis
    by blast
qed

subsection \<open>VCD change detection\<close>

lemma derive_vcd_example:
  "derive 0xFFFFFFFF
     (cfg_init\<lparr>group_enable := 1, samples := 2, clk_divisor := 11,
               vcd_values := [\<lparr>name = ''a'', mask_v = 2, num_bits = 1,
                               bitmasks = (replicate 32 0)[0 := 2]\<rparr>]\<rparr>)
   = Inr (cfg_init\<lparr>group_enable := 1, samples := 2, clk_divisor := 11,
                   vcd_values := [\<lparr>name = ''a'', mask_v = 2, num_bits = 1,
                                   bitmasks = (replicate 32 0)[0 := 2]\<rparr>],
                   max_groups := 4, group_mask := 0xF, num_groups_enabled := 1\<rparr>)"
  by (simp add: derive_def cfg_init_def Let_def count_groups.simps)

lemma capture_io_vcd_example:
  "capture_io
     (cfg_init\<lparr>group_enable := 1, samples := 2, clk_divisor := 11,
               vcd_values := [\<lparr>name = ''a'', mask_v = 2, num_bits = 1,
                               bitmasks = (replicate 32 0)[0 := 2]\<rparr>],
               max_groups := 4, group_mask := 0xF, num_groups_enabled := 1\<rparr>)
     \<lparr>sent = [], incoming = [0x03, 0x01], wr_left = 12\<rparr>
   = (Inr (2, [0x03, 0x01]),
      \<lparr>sent = [[0], [0], [0], [0], [0], [0x80, 10, 0, 0, 0], [0xC0, 0, 0, 0, 0],
               [0xC1, 0, 0, 0, 0], [0xC2, 0, 0, 0, 8], [0x81, 0, 0, 0, 0],
               [0x82, 0x38, 0, 0, 0], [1]],
       incoming = [], wr_left = 0\<rparr>)"
  by (simp add: capture_io_def set_trigger_def cfg_init_def Let_def io_defs cmd_defs
        write_times_numeral)

lemma vcd_timescale_vcd_example:
  "vcd_timescale
     (cfg_init\<lparr>group_enable := 1, samples := 2, clk_divisor := 11,
               vcd_values := [\<lparr>name = ''a'', mask_v = 2, num_bits = 1,
                               bitmasks = (replicate 32 0)[0 := 2]\<rparr>],
               max_groups := 4, group_mask := 0xF, num_groups_enabled := 1\<rparr>)
   = Some (Inr (110, ''1ns''))"
  by (simp add: vcd_timescale_def cfg_init_def scale_loop_11 tens_def units_def
        show_nat_digit hex_digit_def)

lemma char_of_33: "char_of (33::nat) = CHR ''!''"
proof -
  have "of_char (CHR ''!'') = (33::nat)" by simp
  then show ?thesis by (metis char_of_char)
qed

text \<open>
  C4 (the source departs from it). The command line
  \<^verbatim>\<open>groups 1 samples 2 divisor 11 vcd a=0x2\<close> and the capture of the claim: the
  chronological samples \<open>0b01\<close> and \<open>0b11\<close>, which the device delivers newest first as
  \<open>03 01\<close>. The claim gives no line for the value at index 0 and one at index 1. The
  source reads the byte at offset 0, which is the sample of index 1, as the sample of
  index 0 and prints a change line for the value there (\<^verbatim>\<open>#0\<close>, \<^verbatim>\<open>1!\<close>); for index
  1 it reads the byte before the buffer. As in the hex output, \<open>ptr\<close> starts one byte low
  (line 347 with line 353), so no sample is reconstructed from its own bytes.
\<close>

theorem vcd_samples_one_byte_low:
  "(case derive 0xFFFFFFFF
           (cfg_init\<lparr>group_enable := 1, samples := 2, clk_divisor := 11,
                     vcd_values := [\<lparr>name = ''a'', mask_v = 2, num_bits = 1,
                                     bitmasks = (replicate 32 0)[0 := 2]\<rparr>]\<rparr>) of
      Inl e \<Rightarrow> False
    | Inr c \<Rightarrow>
        map_option fst (capture date c \<lparr>sent = [], incoming = [0x03, 0x01], wr_left = 12\<rparr>)
        = Some (Some OutOfBounds,
                vcd_header date c ''1ns'' @ ''#0'' @ [CHR 0x0A] @ ''1!'' @ [CHR 0x0A]))"
  apply (simp only: derive_vcd_example sum.case)
  apply (simp only: capture_def capture_io_vcd_example prod.case write_vcd_def
           vcd_timescale_vcd_example option.case sum.case)
  apply (simp add: num_values_def cfg_init_def peek_def upt_rec write_vcd_value_def bit_digit_def
           show_nat_digit hex_digit_def char_of_33 cur_time_def to_double_def)
  done

subsection \<open>Time stamps\<close>

lemma floor_log2_between:
  assumes "2 ^ n \<le> x" and "x < 2 ^ Suc n"
  shows "\<lfloor>log 2 x\<rfloor> = int n"
proof -
  from assms(1) have pos: "0 < x" by (meson less_le_trans zero_less_numeral zero_less_power)
  have "real n \<le> log 2 x"
    using assms(1) pos by (simp add: le_log_iff powr_realpow)
  moreover have "log 2 x < real n + 1"
    using assms(2) pos by (simp add: log_less_iff powr_realpow powr_add)
  ultimately show ?thesis by (simp add: floor_eq_iff)
qed

lemma two_powr_neg: "(2::real) powr (- real n) = 1 / 2 ^ n"
  by (simp add: powr_minus powr_realpow divide_inverse)

lemma to_double_round_down:
  assumes lo: "2 ^ n \<le> x" and hi: "x < 2 ^ Suc n" and n: "n \<le> 52"
    and m: "of_int m \<le> x * 2 ^ (52 - n)" and r: "x * 2 ^ (52 - n) < of_int m + 1 / 2"
  shows "to_double x = of_int m / 2 ^ (52 - n)"
proof -
  from lo have pos: "0 < x" by (meson less_le_trans zero_less_numeral zero_less_power)
  have l: "\<lfloor>log 2 \<bar>x\<bar>\<rfloor> = int n" using pos floor_log2_between [OF lo hi] by simp
  have "real_of_int (int n) - 52 = - real (52 - n)" using n by simp
  then have u: "(2::real) powr (of_int (int n) - 52) = 1 / 2 ^ (52 - n)"
    by (simp only: two_powr_neg)
  have q: "x / (1 / 2 ^ (52 - n)) = x * 2 ^ (52 - n)" by simp
  have f: "\<lfloor>x * 2 ^ (52 - n)\<rfloor> = m" using m r by (simp add: floor_eq_iff)
  have "round_even (x * 2 ^ (52 - n)) = m"
    using r by (simp add: round_even_def Let_def f)
  with pos show ?thesis
    by (simp only: to_double_def l u q Let_def) simp
qed

text \<open>
  An example of the rounding, for a clock of 3 Hz and a divisor of 1 (a period of \<open>1000/3\<close>
  time units): the exact time of sample 195 is 65000, the rounded product lies just below
  it, and the time stamp is 64999.
\<close>

lemma to_double_third: "to_double (1000 / 3) = 5864062014805333 / 2 ^ 44"
  using to_double_round_down [of 8 "1000 / 3" 5864062014805333] by simp

lemma cur_time_195: "cur_time 195 (to_double (1000 / 3)) = Inr 64999"
proof -
  have d: "to_double (real 195 * (5864062014805333 / 2 ^ 44)) = 8933531975679999 / 2 ^ 37"
    using to_double_round_down [of 15 "real 195 * (5864062014805333 / 2 ^ 44)" 8933531975679999]
    by simp
  have fl: "\<lfloor>8933531975679999 / 2 ^ 37 :: real\<rfloor> = 64999"
    by (simp add: floor_eq_iff)
  have lt: "(8933531975679999 / 2 ^ 37 :: real) < 2 ^ 32" by simp
  show ?thesis
    by (simp only: cur_time_def to_double_third Let_def d) (simp add: fl)
qed

subsection \<open>Frames on the wire\<close>

lemma no_get_meta_refl: "no_get_meta t t"
  by (simp add: no_get_meta_def)

lemma no_get_meta_trans: "no_get_meta t t' \<Longrightarrow> no_get_meta t' t'' \<Longrightarrow> no_get_meta t t''"
  by (auto simp: no_get_meta_def)

lemma no_get_meta_bind:
  assumes m: "\<And>t. no_get_meta t (snd (m t))" and f: "\<And>x t. no_get_meta t (snd (f x t))"
  shows "no_get_meta t (snd (bind_io m f t))"
proof (cases "m t")
  case (Pair r t')
  with m [of t] have step: "no_get_meta t t'" by simp
  show ?thesis
  proof (cases r)
    case (Inl e)
    with Pair step show ?thesis by (simp add: bind_io_def)
  next
    case (Inr x)
    with Pair have "snd (bind_io m f t) = snd (f x t')" by (simp add: bind_io_def)
    with step f [of t' x] show ?thesis by (auto intro: no_get_meta_trans)
  qed
qed

lemma no_get_meta_lift: "no_get_meta t (snd (lift_io r t))"
  by (simp add: lift_io_def no_get_meta_refl)

lemma no_get_meta_read: "no_get_meta t (snd (read_tty n t))"
  by (simp add: read_tty_def no_get_meta_def)

lemma no_get_meta_write:
  "frame c \<noteq> frame cmd_get_meta \<Longrightarrow> no_get_meta t (snd (write_tty c t))"
  by (simp add: write_tty_def no_get_meta_def)

lemma no_get_meta_write_times:
  "frame c \<noteq> frame cmd_get_meta \<Longrightarrow> no_get_meta t (snd (write_times n c t))"
proof (induction n arbitrary: t)
  case 0
  show ?case by (simp add: no_get_meta_refl)
next
  case (Suc n)
  obtain r t' where w: "write_tty c t = (r, t')" by (cases "write_tty c t")
  with no_get_meta_write [OF Suc.prems, of t] have step: "no_get_meta t t'" by simp
  show ?case
  proof (cases r)
    case (Inl e)
    with w step show ?thesis by simp
  next
    case (Inr u)
    with w have "snd (write_times (Suc n) c t) = snd (write_times n c t')" by simp
    with step Suc.IH [OF Suc.prems, of t'] show ?thesis by (auto intro: no_get_meta_trans)
  qed
qed

lemma frame_get_meta: "frame cmd_get_meta = [4]"
  by (simp add: cmd_get_meta_def frame_def)

lemma no_get_meta_send:
  assumes "\<And>c. r = Inr c \<Longrightarrow> length (frame c) = 5"
  shows "no_get_meta t (snd (send r t))"
proof (cases r)
  case (Inl e)
  then show ?thesis by (simp add: send_def no_get_meta_lift)
next
  case (Inr c)
  with assms have "length (frame c) = 5" by simp
  then have "frame c \<noteq> frame cmd_get_meta" by (auto simp: frame_get_meta)
  with Inr show ?thesis by (simp add: send_def no_get_meta_write)
qed

lemma encoder_frames:
  "cmd_divider dv = Inr c \<Longrightarrow> length (frame c) = 5"
  "cmd_flags gd dm fl ex iv rl = Inr c \<Longrightarrow> length (frame c) = 5"
  "cmd_trig_mask stage m = Inr c \<Longrightarrow> length (frame c) = 5"
  "cmd_trig_value stage v = Inr c \<Longrightarrow> length (frame c) = 5"
  "cmd_trig_cfg stage dl lv ch se sa = Inr c \<Longrightarrow> length (frame c) = 5"
  by (auto simp: cmd_divider_def cmd_flags_def cmd_trig_mask_def cmd_trig_value_def
        cmd_trig_cfg_def frame_def split: if_splits)

lemma no_get_meta_encoders:
  "no_get_meta t (snd (send (cmd_divider dv) t))"
  "no_get_meta t (snd (send (cmd_flags gd dm fl ex iv rl) t))"
  "no_get_meta t (snd (send (cmd_trig_mask stage m) t))"
  "no_get_meta t (snd (send (cmd_trig_value stage v) t))"
  "no_get_meta t (snd (send (cmd_trig_cfg stage dl lv ch se sa) t))"
  by (rule no_get_meta_send, erule encoder_frames)+

lemma fixed_frames:
  "frame cmd_reset \<noteq> frame cmd_get_meta"
  "frame cmd_id \<noteq> frame cmd_get_meta"
  "frame cmd_run \<noteq> frame cmd_get_meta"
  "frame (cmd_counts rc dc) \<noteq> frame cmd_get_meta"
  by (simp_all add: cmd_reset_def cmd_id_def cmd_run_def cmd_counts_def cmd_get_meta_def frame_def)

lemma no_get_meta_idle_stages: "no_get_meta t (snd (idle_stages is t))"
proof (induction "is" arbitrary: t)
  case Nil
  show ?case by (simp add: no_get_meta_lift)
next
  case (Cons i "is")
  show ?case
    unfolding idle_stages.simps
    by (intro no_get_meta_bind no_get_meta_encoders Cons.IH)
qed

lemma no_get_meta_set_trigger: "no_get_meta t (snd (set_trigger c t))"
  unfolding set_trigger_def
  by (cases "trigger_mask c = 0")
     (simp_all del: idle_stages.simps,
      (intro no_get_meta_bind no_get_meta_encoders no_get_meta_idle_stages)+)

lemma no_get_meta_capture_tail:
  "no_get_meta t
     (snd (bind_io (write_tty (cmd_counts rc dc)) (\<lambda>_.
           bind_io (send (cmd_flags gd False False False False rl)) (\<lambda>_.
           bind_io (write_tty cmd_run) (\<lambda>_.
           bind_io (read_tty n) (\<lambda>buf.
           lift_io (Inr (k, buf)))))) t))"
  by (intro no_get_meta_bind no_get_meta_encoders no_get_meta_write fixed_frames
        no_get_meta_read no_get_meta_lift)

lemma no_get_meta_capture_io: "no_get_meta t (snd (capture_io c t))"
  unfolding capture_io_def Let_def
  apply (intro no_get_meta_bind no_get_meta_encoders no_get_meta_set_trigger
           no_get_meta_write_times fixed_frames)
  apply (simp add: no_get_meta_lift no_get_meta_capture_tail)
  done

lemma capture_tty:
  "capture date c t = Some (r, t') \<Longrightarrow> t' = snd (capture_io c t)"
  by (auto simp: capture_def split: prod.splits sum.splits if_splits option.splits)

subsection \<open>The command line and the extended-metadata flag\<close>

lemma parse_opts_Nil: "parse_opts st [] s = Inr s"
  by (simp add: parse_opts.simps [of st "[]" s] args_pop_def)

lemma parse_opts_Cons:
  "parse_opts st (opt # rest) s =
     (case parse_opt st opt rest s of
        Inl e \<Rightarrow> Inl e
      | Inr (s', rest') \<Rightarrow> parse_opts st rest' s')"
  by (simp add: parse_opts.simps [of st "opt # rest" s] args_pop_def)

lemma map_sum_Inr_iff: "map_sum f g x = Inr y \<longleftrightarrow> (\<exists>z. x = Inr z \<and> y = g z)"
  by (cases x) auto

lemma parse_opt_ext_meta:
  assumes "parse_opt st opt args s = Inr (s', rest)" and "\<not> ext_meta (fst s)"
  shows "\<not> ext_meta (fst s')"
  using assms unfolding parse_opt_def Let_def
  by (auto simp: map_sum_Inr_iff split: if_splits)

lemma parse_opts_ext_meta:
  "parse_opts st args s = Inr s' \<Longrightarrow> \<not> ext_meta (fst s) \<Longrightarrow> \<not> ext_meta (fst s')"
proof (induction st args s rule: parse_opts.induct)
  case (1 st args s)
  show ?case
  proof (cases args)
    case Nil
    with "1.prems" show ?thesis by (simp add: parse_opts_Nil)
  next
    case (Cons opt rest)
    show ?thesis
    proof (cases "parse_opt st opt rest s")
      case (Inl e)
      with Cons "1.prems" show ?thesis by (simp add: parse_opts_Cons)
    next
      case (Inr b)
      obtain s1 rest1 where b: "b = (s1, rest1)" by (cases b)
      from Inr b "1.prems"(2) have flag: "\<not> ext_meta (fst s1)"
        by (auto dest: parse_opt_ext_meta)
      from Cons Inr b "1.prems"(1) have run: "parse_opts st rest1 s1 = Inr s'"
        by (simp add: parse_opts_Cons)
      have pop: "(Some opt, rest) = args_pop args" using Cons by (simp add: args_pop_def)
      from "1.IH" [OF pop refl Inr b [symmetric] run flag] show ?thesis .
    qed
  qed
qed

lemma read_ident_without_ext_meta:
  "\<not> ext_meta c \<Longrightarrow>
   read_ident c =
     bind_io (write_times 5 cmd_reset) (\<lambda>_.
     bind_io (write_tty cmd_id) (\<lambda>_.
     bind_io (read_tty 4) (\<lambda>ident.
       if ident \<noteq> ident_magic then lift_io (Inl UnknownIdent) else lift_io (Inr c))))"
  by (simp add: read_ident_def)

lemma no_get_meta_read_ident:
  assumes "\<not> ext_meta c"
  shows "no_get_meta t (snd (read_ident c t))"
  unfolding read_ident_without_ext_meta [OF assms]
  apply (intro no_get_meta_bind no_get_meta_write_times no_get_meta_write no_get_meta_read
           fixed_frames)
  apply (simp add: no_get_meta_lift)
  done

lemma sump_main_no_get_meta:
  assumes "sump_main st date argv (Some t) = Some (r, Some t')"
  shows "no_get_meta t t'"
proof -
  from assms have len: "\<not> length argv < 2"
    by (auto simp: sump_main_def split: if_splits)
  from assms len obtain c a where p: "parse_opts st (drop 2 argv) (cfg_init, 0xFFFFFFFF) = Inr (c, a)"
    by (cases "parse_opts st (drop 2 argv) (cfg_init, 0xFFFFFFFF)") (auto simp: sump_main_def)
  from parse_opts_ext_meta [OF p] have flag: "\<not> ext_meta c" by (simp add: cfg_init_def)
  obtain x t1 where ri: "read_ident c t = (x, t1)" by (cases "read_ident c t")
  from no_get_meta_read_ident [OF flag, of t] ri have step1: "no_get_meta t t1" by simp
  show ?thesis
  proof (cases x)
    case (Inl e)
    with assms len p ri have "t' = t1" by (simp add: sump_main_def)
    with step1 show ?thesis by simp
  next
    case (Inr c1)
    show ?thesis
    proof (cases "derive a c1")
      case (Inl e)
      with assms len p ri Inr have "t' = t1" by (simp add: sump_main_def)
      with step1 show ?thesis by simp
    next
      case c2: (Inr c2)
      with assms len p ri Inr have "capture date c2 t1 = Some (r, t')"
        by (auto simp: sump_main_def)
      then have "t' = snd (capture_io c2 t1)" by (rule capture_tty)
      with no_get_meta_capture_io [of t1 c2] have "no_get_meta t1 t'" by simp
      with step1 show ?thesis by (rule no_get_meta_trans)
    qed
  qed
qed

text \<open>
  C9. The handler of the option \<^verbatim>\<open>extmeta\<close> stores \<open>False\<close> in \<open>ext_meta\<close>; whatever
  the command line, the configuration the option loop yields from the initial one has
  \<open>ext_meta\<close> false, so \<^verbatim>\<open>read_ident\<close> is the handshake alone, without the
  get-metadata command and the metadata loop; and in every run of \<^verbatim>\<open>main\<close> the frames
  written to the device do not include the get-metadata command.
\<close>

theorem extmeta_option_never_enables:
  "parse_opt st ''extmeta'' args (c, a) = Inr ((c\<lparr>ext_meta := False\<rparr>, a), args)
   \<and> (parse_opts st args (cfg_init, a) = Inr (c', a') \<longrightarrow>
        \<not> ext_meta c'
        \<and> read_ident c' =
            bind_io (write_times 5 cmd_reset) (\<lambda>_.
            bind_io (write_tty cmd_id) (\<lambda>_.
            bind_io (read_tty 4) (\<lambda>ident.
              if ident \<noteq> ident_magic then lift_io (Inl UnknownIdent) else lift_io (Inr c')))))
   \<and> (sump_main st date argv (Some t) = Some (r, Some t') \<longrightarrow> no_get_meta t t')"
proof (intro conjI impI)
  show "parse_opt st ''extmeta'' args (c, a) = Inr ((c\<lparr>ext_meta := False\<rparr>, a), args)"
    by (simp add: parse_opt_def)
next
  assume p: "parse_opts st args (cfg_init, a) = Inr (c', a')"
  from parse_opts_ext_meta [OF p] show flag: "\<not> ext_meta c'" by (simp add: cfg_init_def)
  then show "read_ident c' =
            bind_io (write_times 5 cmd_reset) (\<lambda>_.
            bind_io (write_tty cmd_id) (\<lambda>_.
            bind_io (read_tty 4) (\<lambda>ident.
              if ident \<noteq> ident_magic then lift_io (Inl UnknownIdent) else lift_io (Inr c'))))"
    by (rule read_ident_without_ext_meta)
next
  assume "sump_main st date argv (Some t) = Some (r, Some t')"
  then show "no_get_meta t t'" by (rule sump_main_no_get_meta)
qed

theorem extmeta_option_never_enables_witness:
  "parse_opts (\<lambda>s. if s = ''1'' then (1, 1) else (0, 0))
     [''extmeta'', ''groups'', ''1'', ''samples'', ''1''] (cfg_init, 0xFFFFFFFF)
     = Inr (cfg_init\<lparr>group_enable := 1, samples := 1\<rparr>, 0xFFFFFFFF)
   \<and> \<not> ext_meta (cfg_init\<lparr>group_enable := 1, samples := 1\<rparr>)
   \<and> sump_main (\<lambda>s. if s = ''1'' then (1, 1) else (0, 0)) []
         [''sump-dump'', ''/dev/ttyUSB1'', ''extmeta'', ''groups'', ''1'', ''samples'', ''1'']
         (Some \<lparr>sent = [], incoming = [0x31, 0x41, 0x4C, 0x53, 0xAB], wr_left = 18\<rparr>)
       = Some ((Some OutOfBounds, []),
               Some \<lparr>sent = [[0], [0], [0], [0], [0], [2], [0], [0], [0], [0], [0],
                             [0x80, 0, 0, 0, 0], [0xC0, 0, 0, 0, 0], [0xC1, 0, 0, 0, 0],
                             [0xC2, 0, 0, 0, 8], [0x81, 0, 0, 0, 0], [0x82, 0x38, 0, 0, 0], [1]],
                     incoming = [], wr_left = 0\<rparr>)
   \<and> no_get_meta \<lparr>sent = [], incoming = [0x31, 0x41, 0x4C, 0x53, 0xAB], wr_left = 18\<rparr>
        \<lparr>sent = [[0], [0], [0], [0], [0], [2], [0], [0], [0], [0], [0],
                [0x80, 0, 0, 0, 0], [0xC0, 0, 0, 0, 0], [0xC1, 0, 0, 0, 0],
                [0xC2, 0, 0, 0, 8], [0x81, 0, 0, 0, 0], [0x82, 0x38, 0, 0, 0], [1]],
         incoming = [], wr_left = 0\<rparr>"
proof -
  let ?st = "\<lambda>s::string. if s = ''1'' then (1::nat, 1::nat) else (0, 0)"
  let ?c = "cfg_init\<lparr>group_enable := 1, samples := 1\<rparr>"
  let ?c2 = "cfg_init\<lparr>group_enable := 1, samples := 1, max_groups := 4, group_mask := 0xF,
                       num_groups_enabled := 1\<rparr>"
  let ?t = "\<lparr>sent = [], incoming = [0x31, 0x41, 0x4C, 0x53, 0xAB], wr_left = 18\<rparr>"
  let ?t1 = "\<lparr>sent = [[0], [0], [0], [0], [0], [2]], incoming = [0xAB :: byte], wr_left = 12\<rparr>"
  let ?t2 = "\<lparr>sent = [[0], [0], [0], [0], [0], [2], [0], [0], [0], [0], [0],
                [0x80, 0, 0, 0, 0], [0xC0, 0, 0, 0, 0], [0xC1, 0, 0, 0, 0],
                [0xC2, 0, 0, 0, 8], [0x81, 0, 0, 0, 0], [0x82, 0x38, 0, 0, 0], [1 :: byte]],
         incoming = [], wr_left = 0\<rparr>"
  have p: "parse_opts ?st [''extmeta'', ''groups'', ''1'', ''samples'', ''1'']
             (cfg_init, 0xFFFFFFFF) = Inr (?c, 0xFFFFFFFF)"
    by (simp add: parse_opts_Cons parse_opts_Nil parse_opt_def args_number_def args_pop_def
          UINT32_MAX_def cfg_init_def)
  have ri: "read_ident ?c ?t = (Inr ?c, ?t1)"
    by (simp add: read_ident_def cfg_init_def io_defs cmd_defs write_times_numeral
          ident_magic_def)
  have dv: "derive 0xFFFFFFFF ?c = Inr ?c2"
    by (simp add: derive_def cfg_init_def Let_def count_groups.simps)
  have ci: "capture_io ?c2 ?t1 = (Inr (1, [0xAB]), ?t2)"
    by (simp add: capture_io_def set_trigger_def cfg_init_def Let_def io_defs cmd_defs
          write_times_numeral)
  have dm: "dump ?c2 [0xAB] 1 = (Some OutOfBounds, [])"
    by (simp add: dump_def cfg_init_def peek_def)
  have nv: "num_values ?c2 = 0" by (simp add: num_values_def cfg_init_def)
  have m: "sump_main ?st []
             [''sump-dump'', ''/dev/ttyUSB1'', ''extmeta'', ''groups'', ''1'', ''samples'', ''1'']
             (Some ?t) = Some ((Some OutOfBounds, []), Some ?t2)"
    by (simp add: sump_main_def p ri dv capture_def ci dm nv)
  from extmeta_option_never_enables
         [of ?st "[''extmeta'', ''groups'', ''1'', ''samples'', ''1'']" cfg_init "0xFFFFFFFF"
             ?c "0xFFFFFFFF" "[]"
             "[''sump-dump'', ''/dev/ttyUSB1'', ''extmeta'', ''groups'', ''1'', ''samples'', ''1'']"
             ?t "(Some OutOfBounds, [])" ?t2] p m
  have "\<not> ext_meta ?c \<and> no_get_meta ?t ?t2" by blast
  with p m show ?thesis by blast
qed

subsection \<open>Identification\<close>

lemma write_times_ok:
  "n \<le> wr_left t \<Longrightarrow>
   write_times n c t
     = (Inr (), t\<lparr>sent := sent t @ replicate n (frame c), wr_left := wr_left t - n\<rparr>)"
proof (induction n arbitrary: t)
  case 0
  show ?case by simp
next
  case (Suc n)
  let ?t1 = "t\<lparr>sent := sent t @ [frame c], wr_left := wr_left t - 1\<rparr>"
  from Suc.prems have w: "write_tty c t = (Inr (), ?t1)" by (simp add: write_tty_def)
  from Suc.prems have "n \<le> wr_left ?t1" by simp
  from Suc.IH [OF this] w show ?case by (simp add: replicate_app_Cons_same)
qed

lemma read_tty_keeps:
  "read_tty n t = (r, t') \<Longrightarrow> sent t' = sent t \<and> r \<noteq> Inl UnknownIdent"
  by (auto simp: read_tty_def split: if_splits)

lemma str_fill_keeps:
  "str_fill i t = (r, t') \<Longrightarrow> sent t' = sent t \<and> r \<noteq> Inl UnknownIdent"
proof (induction i t arbitrary: r t' rule: str_fill.induct)
  case (1 i t)
  obtain a t1 where rt: "read_tty 1 t = (a, t1)" by (cases "read_tty 1 t")
  note k = read_tty_keeps [OF rt]
  show ?case
  proof (cases "\<exists>bs. a = Inr bs \<and> bs ! 0 \<noteq> 0 \<and> i + 1 \<noteq> 256")
    case True
    then obtain bs where a: "a = Inr bs" and go: "bs ! 0 \<noteq> 0 \<and> i + 1 \<noteq> 256" by blast
    from "1.prems" rt a go have "str_fill (i + 1) t1 = (r, t')"
      by (simp add: str_fill.simps [of i t])
    from "1.IH" [OF rt [symmetric] a go this] k show ?thesis by simp
  next
    case False
    with "1.prems" rt k show ?thesis
      by (cases a) (auto simp: str_fill.simps [of i t] split: if_splits)
  qed
qed

lemma str_skip_keeps:
  "str_skip t = (r, t') \<Longrightarrow> sent t' = sent t \<and> r \<noteq> Inl UnknownIdent"
proof (induction t arbitrary: r t' rule: str_skip.induct)
  case (1 t)
  obtain a t1 where rt: "read_tty 1 t = (a, t1)" by (cases "read_tty 1 t")
  note k = read_tty_keeps [OF rt]
  show ?case
  proof (cases "\<exists>bs. a = Inr bs \<and> bs ! 0 \<noteq> 0")
    case True
    then obtain bs where a: "a = Inr bs" and go: "bs ! 0 \<noteq> 0" by blast
    from "1.prems" rt a go have "str_skip t1 = (r, t')"
      by (simp add: str_skip.simps [of t])
    from "1.IH" [OF rt [symmetric] a go this] k show ?thesis by simp
  next
    case False
    with "1.prems" rt k show ?thesis
      by (cases a) (auto simp: str_skip.simps [of t] split: if_splits)
  qed
qed

lemma read_meta_str_keeps:
  assumes "read_meta_str t = (r, t')"
  shows "sent t' = sent t \<and> r \<noteq> Inl UnknownIdent"
proof -
  obtain a t1 where f: "str_fill 0 t = (a, t1)" by (cases "str_fill 0 t")
  note k = str_fill_keeps [OF f]
  show ?thesis
  proof (cases "\<exists>b. a = Inr b \<and> b \<noteq> 0")
    case True
    with assms f have "str_skip t1 = (r, t')" by (auto simp: read_meta_str_def)
    from str_skip_keeps [OF this] k show ?thesis by simp
  next
    case False
    with assms f k show ?thesis
      by (cases a) (auto simp: read_meta_str_def split: if_splits)
  qed
qed

lemma read_meta_keeps:
  "read_meta c t = (r, t') \<Longrightarrow> sent t' = sent t \<and> r \<noteq> Inl UnknownIdent"
proof (induction c t arbitrary: r t' rule: read_meta.induct)
  case (1 c t)
  obtain a t1 where rt: "read_tty 1 t = (a, t1)" by (cases "read_tty 1 t")
  note k = read_tty_keeps [OF rt]
  note unf = read_meta.simps [of c t]
  show ?case
  proof (cases a)
    case (Inl e)
    with rt have "read_meta c t = (Inl e, t1)" by (simp add: unf)
    with "1.prems" Inl k show ?thesis by auto
  next
    case (Inr bs)
    define meta where "meta = bs ! 0"
    consider (stop) "meta = 0 \<or> (drop_bit 5 meta \<noteq> 0 \<and> drop_bit 5 meta \<noteq> 1 \<and> drop_bit 5 meta \<noteq> 2)"
      | (str) "meta \<noteq> 0" "drop_bit 5 meta = 0"
      | (u32) "meta \<noteq> 0" "drop_bit 5 meta = 1"
      | (u8) "meta \<noteq> 0" "drop_bit 5 meta = 2"
      by auto
    then show ?thesis
    proof cases
      case stop
      with rt Inr have "read_meta c t = (Inr c, t1)"
        by (auto simp: unf meta_def [symmetric] Let_def)
      with "1.prems" k show ?thesis by auto
    next
      case str
      obtain b t2 where s: "read_meta_str t1 = (b, t2)" by (cases "read_meta_str t1")
      note ks = read_meta_str_keeps [OF s]
      show ?thesis
      proof (cases b)
        case (Inl e)
        with rt Inr str s have "read_meta c t = (Inl e, t2)"
          by (simp add: unf meta_def [symmetric] Let_def)
        with "1.prems" Inl k ks show ?thesis by auto
      next
        case b: (Inr u)
        with rt Inr str s have "read_meta c t = read_meta c t2"
          by (simp add: unf meta_def [symmetric] Let_def)
        with "1.prems" have "read_meta c t2 = (r, t')" by simp
        from "1.IH"(1) [OF rt [symmetric] Inr meta_def str(1) str(2) s [symmetric] b this] k ks
        show ?thesis by simp
      qed
    next
      case u32
      then have n0: "drop_bit 5 meta \<noteq> 0" by simp
      obtain b t2 where s: "read_tty 4 t1 = (b, t2)" by (cases "read_tty 4 t1")
      note ks = read_tty_keeps [OF s]
      show ?thesis
      proof (cases b)
        case (Inl e)
        with rt Inr u32 s have "read_meta c t = (Inl e, t2)"
          by (simp add: unf meta_def [symmetric] Let_def)
        with "1.prems" Inl k ks show ?thesis by auto
      next
        case b: (Inr valb)
        show ?thesis
        proof (cases "meta_u32 valb")
          case (Inl e)
          with rt Inr u32 s b have "read_meta c t = (Inl e, t2)"
            by (simp add: unf meta_def [symmetric] Let_def)
          moreover from Inl have "e = UndefinedShift"
            by (auto simp: meta_u32_def split: if_splits)
          ultimately show ?thesis using "1.prems" k ks by auto
        next
          case v: (Inr val)
          with rt Inr u32 s b
          have "read_meta c t = read_meta (meta_store (meta AND 0x1f) val c) t2"
            by (simp add: unf meta_def [symmetric] Let_def)
          with "1.prems"
          have "read_meta (meta_store (meta AND 0x1f) val c) t2 = (r, t')" by simp
          from "1.IH"(2) [OF rt [symmetric] Inr meta_def u32(1) n0 u32(2) s [symmetric] b v this]
            k ks
          show ?thesis by simp
        qed
      qed
    next
      case u8
      then have n0: "drop_bit 5 meta \<noteq> 0" and n1: "drop_bit 5 meta \<noteq> 1" by simp_all
      obtain b t2 where s: "read_tty 1 t1 = (b, t2)" by (cases "read_tty 1 t1")
      note ks = read_tty_keeps [OF s]
      show ?thesis
      proof (cases b)
        case (Inl e)
        with rt Inr u8 s have "read_meta c t = (Inl e, t2)"
          by (simp add: unf meta_def [symmetric] Let_def)
        with "1.prems" Inl k ks show ?thesis by auto
      next
        case b: (Inr val)
        with rt Inr u8 s have "read_meta c t = read_meta c t2"
          by (simp add: unf meta_def [symmetric] Let_def)
        with "1.prems" have "read_meta c t2 = (r, t')" by simp
        from "1.IH"(3) [OF rt [symmetric] Inr meta_def u8(1) n0 n1 u8(2) s [symmetric] b this] k ks
        show ?thesis by simp
      qed
    qed
  qed
qed

lemma read_ident_unfold:
  assumes "6 \<le> wr_left t" and "4 \<le> length (incoming t)"
  shows "read_ident c t =
           (let t' = t\<lparr>sent := sent t @ replicate 5 (frame cmd_reset) @ [frame cmd_id],
                        incoming := drop 4 (incoming t), wr_left := wr_left t - 6\<rparr>
            in if take 4 (incoming t) \<noteq> ident_magic then (Inl UnknownIdent, t')
               else if \<not> ext_meta c then (Inr c, t')
               else bind_io (write_tty cmd_get_meta) (\<lambda>_. read_meta c) t')"
proof -
  let ?t5 = "t\<lparr>sent := sent t @ replicate 5 (frame cmd_reset), wr_left := wr_left t - 5\<rparr>"
  let ?t6 = "?t5\<lparr>sent := sent ?t5 @ [frame cmd_id], wr_left := wr_left ?t5 - 1\<rparr>"
  let ?t' = "t\<lparr>sent := sent t @ replicate 5 (frame cmd_reset) @ [frame cmd_id],
                incoming := drop 4 (incoming t), wr_left := wr_left t - 6\<rparr>"
  from assms(1) have "5 \<le> wr_left t" by simp
  then have w5: "write_times 5 cmd_reset t = (Inr (), ?t5)" by (rule write_times_ok)
  from assms(1) have w6: "write_tty cmd_id ?t5 = (Inr (), ?t6)" by (simp add: write_tty_def)
  from assms have r4: "read_tty 4 ?t6 = (Inr (take 4 (incoming t)), ?t')"
    by (simp add: read_tty_def)
  show ?thesis
    unfolding read_ident_def Let_def
    by (simp only: bind_io_def [of "write_times 5 cmd_reset"] w5
          bind_io_def [of "write_tty cmd_id"] w6 bind_io_def [of "read_tty 4"] r4
          prod.case sum.case)
       (simp add: lift_io_def)
qed

lemma get_meta_then_read_meta:
  assumes "bind_io (write_tty cmd_get_meta) (\<lambda>_. read_meta c) t = (r, t')"
  shows "(\<exists>fs. sent t' = sent t @ fs) \<and> r \<noteq> Inl UnknownIdent"
proof (cases "wr_left t = 0")
  case True
  with assms show ?thesis by (auto simp: bind_io_def write_tty_def)
next
  case False
  let ?t1 = "t\<lparr>sent := sent t @ [frame cmd_get_meta], wr_left := wr_left t - 1\<rparr>"
  from False assms have "read_meta c ?t1 = (r, t')" by (simp add: bind_io_def write_tty_def)
  from read_meta_keeps [OF this] show ?thesis by simp
qed

lemma replicate_five: "replicate 5 x = [x, x, x, x, x]"
  by (simp add: numeral_eq_Suc)

subsection \<open>Errors other than an unknown device\<close>

lemma known_bind:
  assumes m: "\<And>t. fst (m t) \<noteq> Inl UnknownIdent"
    and f: "\<And>x t. fst (f x t) \<noteq> Inl UnknownIdent"
  shows "fst (bind_io m f t) \<noteq> Inl UnknownIdent"
proof (cases "m t")
  case (Pair r t')
  show ?thesis
  proof (cases r)
    case (Inl e)
    with Pair m [of t] show ?thesis by (simp add: bind_io_def)
  next
    case (Inr x)
    with Pair f [of x t'] show ?thesis by (simp add: bind_io_def)
  qed
qed

lemma known_lift: "r \<noteq> Inl UnknownIdent \<Longrightarrow> fst (lift_io r t) \<noteq> Inl UnknownIdent"
  by (simp add: lift_io_def)

lemma known_read: "fst (read_tty n t) \<noteq> Inl UnknownIdent"
  by (simp add: read_tty_def)

lemma known_write: "fst (write_tty c t) \<noteq> Inl UnknownIdent"
  by (simp add: write_tty_def)

lemma known_write_times: "fst (write_times n c t) \<noteq> Inl UnknownIdent"
proof (induction n arbitrary: t)
  case 0
  show ?case by simp
next
  case (Suc n)
  obtain r t' where w: "write_tty c t = (r, t')" by (cases "write_tty c t")
  show ?case
  proof (cases r)
    case (Inl e)
    with w known_write [of c t] show ?thesis by simp
  next
    case (Inr u)
    with w Suc.IH [of t'] show ?thesis by simp
  qed
qed

lemma known_send: "r \<noteq> Inl UnknownIdent \<Longrightarrow> fst (send r t) \<noteq> Inl UnknownIdent"
  by (cases r) (simp_all add: send_def lift_io_def known_write)

lemma known_encoders:
  "fst (send (cmd_divider dv) t) \<noteq> Inl UnknownIdent"
  "fst (send (cmd_flags gd dm fl ex iv rl) t) \<noteq> Inl UnknownIdent"
  "fst (send (cmd_trig_mask stage m) t) \<noteq> Inl UnknownIdent"
  "fst (send (cmd_trig_value stage v) t) \<noteq> Inl UnknownIdent"
  "fst (send (cmd_trig_cfg stage dl lv ch se sa) t) \<noteq> Inl UnknownIdent"
  by (rule known_send,
      simp add: cmd_divider_def cmd_flags_def cmd_trig_mask_def cmd_trig_value_def
        cmd_trig_cfg_def)+

lemma known_idle_stages: "fst (idle_stages is t) \<noteq> Inl UnknownIdent"
proof (induction "is" arbitrary: t)
  case Nil
  show ?case by (simp add: lift_io_def)
next
  case (Cons i "is")
  show ?case
    unfolding idle_stages.simps
    by (intro known_bind known_encoders Cons.IH)
qed

lemma known_set_trigger: "fst (set_trigger c t) \<noteq> Inl UnknownIdent"
  unfolding set_trigger_def
  by (cases "trigger_mask c = 0")
     (simp_all del: idle_stages.simps,
      (intro known_bind known_encoders known_idle_stages)+)

lemma known_capture_tail:
  "fst (bind_io (write_tty (cmd_counts rc dc)) (\<lambda>_.
        bind_io (send (cmd_flags gd False False False False rl)) (\<lambda>_.
        bind_io (write_tty cmd_run) (\<lambda>_.
        bind_io (read_tty n) (\<lambda>buf.
        lift_io (Inr (k, buf)))))) t) \<noteq> Inl UnknownIdent"
  by (intro known_bind known_encoders known_write known_read known_lift) simp

lemma known_capture_io: "fst (capture_io c t) \<noteq> Inl UnknownIdent"
  unfolding capture_io_def Let_def
  apply (intro known_bind known_encoders known_set_trigger known_write_times)
  apply (simp add: lift_io_def known_capture_tail)
  done

lemma peek_fault: "peek buf k = Inl e \<Longrightarrow> e = OutOfBounds"
  by (simp add: peek_def split: if_splits)

lemma peek_range_fault: "peek_range buf k n = Inl e \<Longrightarrow> e = OutOfBounds"
  by (induction n arbitrary: k e) (auto split: sum.splits dest: peek_fault)

lemma known_hex_group: "fst (hex_group buf ptr g js out) \<noteq> Some UnknownIdent"
  by (induction js arbitrary: out) (auto split: sum.splits dest: peek_fault)

lemma known_dump_loop: "fst (dump_loop is_raw buf g n ptr out) \<noteq> Some UnknownIdent"
proof (induction n arbitrary: ptr out)
  case 0
  show ?case by simp
next
  case (Suc n)
  show ?case
  proof (cases is_raw)
    case True
    with Suc.IH show ?thesis by (auto split: sum.splits dest: peek_range_fault)
  next
    case False
    obtain r out' where h: "hex_group buf ptr g [0..<g] out = (r, out')"
      by (cases "hex_group buf ptr g [0..<g] out")
    with known_hex_group [of buf ptr g "[0..<g]" out] have "r \<noteq> Some UnknownIdent" by simp
    with False h Suc.IH show ?thesis by (cases r) simp_all
  qed
qed

lemma vcd_cur_fault: "vcd_cur buf ptr g js cur = Inl e \<Longrightarrow> e = OutOfBounds"
  by (induction js arbitrary: cur) (auto split: sum.splits dest: peek_fault)

lemma cur_time_fault: "cur_time i period = Inl e \<Longrightarrow> e = UndefinedConversion"
  by (simp add: cur_time_def Let_def split: if_splits)

lemma known_vcd_emit:
  "fst (vcd_emit c period num_samples i changed cur valis written_time out) \<noteq> Some UnknownIdent"
  by (induction valis arbitrary: written_time out)
     (auto split: sum.splits dest: cur_time_fault)

lemma known_vcd_samples:
  "fst (vcd_samples c period buf num_samples is ptr prev out) \<noteq> Some UnknownIdent"
proof (induction "is" arbitrary: ptr prev out)
  case Nil
  show ?case by simp
next
  case (Cons i "is")
  let ?g = "unat (num_groups_enabled c)"
  show ?case
  proof (cases "vcd_cur buf ptr ?g [0..<?g] 0")
    case (Inl e)
    with vcd_cur_fault [OF Inl] show ?thesis by simp
  next
    case (Inr cur)
    obtain r out' where
      e: "vcd_emit c period num_samples i (prev XOR cur) cur [0..<num_values c] False out = (r, out')"
      by (cases "vcd_emit c period num_samples i (prev XOR cur) cur [0..<num_values c] False out")
    with known_vcd_emit [of c period num_samples i "prev XOR cur" cur "[0..<num_values c]" False out]
    have "r \<noteq> Some UnknownIdent" by simp
    with Inr e Cons.IH show ?thesis by (cases r) simp_all
  qed
qed

lemma known_write_vcd:
  "write_vcd date c buf n = Some r \<Longrightarrow> fst r \<noteq> Some UnknownIdent"
  by (auto simp: write_vcd_def vcd_timescale_def Let_def known_vcd_samples
        split: option.splits sum.splits prod.splits if_splits)

lemma known_capture:
  assumes "capture date c t = Some (r, t')"
  shows "fst r \<noteq> Some UnknownIdent"
proof -
  obtain x t1 where ci: "capture_io c t = (x, t1)" by (cases "capture_io c t")
  show ?thesis
  proof (cases x)
    case (Inl e)
    with known_capture_io [of c t] ci have "e \<noteq> UnknownIdent" by simp
    with assms ci Inl show ?thesis by (auto simp: capture_def)
  next
    case (Inr nb)
    obtain n buf where nb: "nb = (n, buf)" by (cases nb)
    show ?thesis
    proof (cases "num_values c \<noteq> 0")
      case True
      with assms ci Inr nb have "write_vcd date c buf n = Some r"
        by (auto simp: capture_def split: option.splits)
      then show ?thesis by (rule known_write_vcd)
    next
      case False
      with assms ci Inr nb have "r = dump c buf n" by (auto simp: capture_def)
      with known_dump_loop show ?thesis by (simp add: dump_def)
    qed
  qed
qed

lemma known_derive: "derive a c \<noteq> Inl UnknownIdent"
  by (simp add: derive_def Let_def)

subsection \<open>The handshake\<close>

lemma sump_main_after_parse:
  assumes "2 \<le> length argv"
    and "parse_opts st (drop 2 argv) (cfg_init, 0xFFFFFFFF) = Inr (c, a)"
  shows "sump_main st date argv (Some t) =
           (case read_ident c t of
              (Inl e, t1) \<Rightarrow> Some ((Some e, []), Some t1)
            | (Inr c1, t1) \<Rightarrow>
                (case derive a c1 of
                   Inl e \<Rightarrow> Some ((Some e, []), Some t1)
                 | Inr c2 \<Rightarrow> map_option (\<lambda>(r, t2). (r, Some t2)) (capture date c2 t1)))"
  using assms by (simp add: sump_main_def)

lemma after_ident_known:
  "(case derive a c of
      Inl e \<Rightarrow> Some ((Some e, []), Some t')
    | Inr c2 \<Rightarrow> map_option (\<lambda>(r, t2). (r, Some t2)) (capture date c2 t'))
   \<noteq> Some ((Some UnknownIdent, out), tt)"
proof (cases "derive a c")
  case (Inl e)
  with known_derive [of a c] show ?thesis by auto
next
  case (Inr c2)
  show ?thesis
  proof (cases "capture date c2 t'")
    case None
    with Inr show ?thesis by simp
  next
    case (Some rt)
    obtain r t2 where rt: "rt = (r, t2)" by (cases rt)
    with Some known_capture [of date c2 t' r t2] have "fst r \<noteq> Some UnknownIdent" by simp
    with Inr Some rt show ?thesis by auto
  qed
qed

text \<open>
  C7, counterexample. The command line \<^verbatim>\<open>clk_freq 0\<close> with a device that answers
  \<^verbatim>\<open>1ALS\<close>: the four bytes are the expected ones, and yet the run ends with a failure
  (lines 755 to 758) after the six frames of the handshake, with nothing more exchanged
  with the device. So a fatal end without further interaction does not imply a mismatch.
\<close>

theorem matching_ident_can_still_exit:
  "take 4 (incoming \<lparr>sent = [], incoming = [0x31, 0x41, 0x4C, 0x53], wr_left = 6\<rparr>) = ident_magic
   \<and> sump_main (\<lambda>s. (0, 1)) [] [''sump-dump'', ''/dev/ttyUSB1'', ''clk_freq'', ''0'']
         (Some \<lparr>sent = [], incoming = [0x31, 0x41, 0x4C, 0x53], wr_left = 6\<rparr>)
       = Some ((Some NoClockFreq, []),
               Some \<lparr>sent = [[0], [0], [0], [0], [0], [2]], incoming = [], wr_left = 0\<rparr>)"
proof -
  let ?c = "cfg_init\<lparr>clk_freq_hz := 0\<rparr>"
  let ?t = "\<lparr>sent = [], incoming = [0x31, 0x41, 0x4C, 0x53 :: byte], wr_left = 6\<rparr>"
  let ?t1 = "\<lparr>sent = [[0], [0], [0], [0], [0], [2 :: byte]], incoming = [], wr_left = 0\<rparr>"
  have len: "2 \<le> length [''sump-dump'', ''/dev/ttyUSB1'', ''clk_freq'', ''0'']" by simp
  have p: "parse_opts (\<lambda>s. (0, 1))
             (drop 2 [''sump-dump'', ''/dev/ttyUSB1'', ''clk_freq'', ''0''])
             (cfg_init, 0xFFFFFFFF)
             = Inr (?c, 0xFFFFFFFF)"
    by (simp add: parse_opts_Cons parse_opts_Nil parse_opt_def args_si_unit_def args_pop_def
          UINT32_MAX_def)
  have ri: "read_ident ?c ?t = (Inr ?c, ?t1)"
    by (simp add: read_ident_def cfg_init_def io_defs cmd_defs write_times_numeral
          ident_magic_def)
  have dv: "derive 0xFFFFFFFF ?c = Inl NoClockFreq"
    by (simp add: derive_def cfg_init_def Let_def count_groups.simps)
  from sump_main_after_parse [OF len p, of "[]" ?t] show ?thesis
    by (simp add: ri dv ident_magic_def)
qed

text \<open>
  C7, as amended. With a transport on which six writes succeed and four bytes arrive,
  \<^verbatim>\<open>read_ident\<close> writes the reset command five times and then the identify command, and
  reads exactly four bytes. If they are not \<^verbatim>\<open>1ALS\<close> it ends with the fatal error of an
  unknown device, and it ends with that error in no other case; if they are and extended
  metadata is off, it returns the configuration unchanged with nothing more written or
  read. In \<^verbatim>\<open>main\<close>, after the command line is read, a mismatch ends the process with
  that error, no output and the transport as the handshake left it; on a match the process
  goes on to derive the parameters and to capture, and whatever its exit status then is (it
  can still fail, as for a clock frequency of zero), it is not that of an unknown device.
\<close>

theorem read_ident_handshake:
  assumes "6 \<le> wr_left t" and "4 \<le> length (incoming t)"
  shows
    "let t' = t\<lparr>sent := sent t @ replicate 5 (frame cmd_reset) @ [frame cmd_id],
                  incoming := drop 4 (incoming t), wr_left := wr_left t - 6\<rparr>
     in read_ident c t =
          (if take 4 (incoming t) \<noteq> ident_magic then (Inl UnknownIdent, t')
           else if \<not> ext_meta c then (Inr c, t')
           else bind_io (write_tty cmd_get_meta) (\<lambda>_. read_meta c) t')
        \<and> (fst (read_ident c t) = Inl UnknownIdent \<longleftrightarrow> take 4 (incoming t) \<noteq> ident_magic)
        \<and> (\<exists>fs. sent (snd (read_ident c t)) = sent t' @ fs)
        \<and> (2 \<le> length argv
             \<and> parse_opts st (drop 2 argv) (cfg_init, 0xFFFFFFFF) = Inr (c, a) \<longrightarrow>
             sump_main st date argv (Some t) =
               (if take 4 (incoming t) \<noteq> ident_magic
                then Some ((Some UnknownIdent, []), Some t')
                else case derive a c of
                       Inl e \<Rightarrow> Some ((Some e, []), Some t')
                     | Inr c2 \<Rightarrow> map_option (\<lambda>(r, t2). (r, Some t2)) (capture date c2 t'))
             \<and> (take 4 (incoming t) = ident_magic \<longrightarrow>
                  (\<forall>out tt. sump_main st date argv (Some t)
                              \<noteq> Some ((Some UnknownIdent, out), tt))))"
proof -
  define t' where "t' = t\<lparr>sent := sent t @ replicate 5 (frame cmd_reset) @ [frame cmd_id],
                            incoming := drop 4 (incoming t), wr_left := wr_left t - 6\<rparr>"
  have unf: "read_ident c t =
          (if take 4 (incoming t) \<noteq> ident_magic then (Inl UnknownIdent, t')
           else if \<not> ext_meta c then (Inr c, t')
           else bind_io (write_tty cmd_get_meta) (\<lambda>_. read_meta c) t')"
    using read_ident_unfold [OF assms, of c] by (simp add: Let_def t'_def)
  have meta: "(\<exists>fs. sent (snd (bind_io (write_tty cmd_get_meta) (\<lambda>_. read_meta c) t')) = sent t' @ fs)
              \<and> fst (bind_io (write_tty cmd_get_meta) (\<lambda>_. read_meta c) t') \<noteq> Inl UnknownIdent"
    using get_meta_then_read_meta
            [of c t' "fst (bind_io (write_tty cmd_get_meta) (\<lambda>_. read_meta c) t')"
                "snd (bind_io (write_tty cmd_get_meta) (\<lambda>_. read_meta c) t')"]
    by simp
  have iff: "fst (read_ident c t) = Inl UnknownIdent \<longleftrightarrow> take 4 (incoming t) \<noteq> ident_magic"
    using meta by (simp add: unf)
  have ext: "\<exists>fs. sent (snd (read_ident c t)) = sent t' @ fs"
    using meta by (simp add: unf)
  have main: "sump_main st date argv (Some t) =
               (if take 4 (incoming t) \<noteq> ident_magic
                then Some ((Some UnknownIdent, []), Some t')
                else case derive a c of
                       Inl e \<Rightarrow> Some ((Some e, []), Some t')
                     | Inr c2 \<Rightarrow> map_option (\<lambda>(r, t2). (r, Some t2)) (capture date c2 t'))
             \<and> (take 4 (incoming t) = ident_magic \<longrightarrow>
                  (\<forall>out tt. sump_main st date argv (Some t)
                              \<noteq> Some ((Some UnknownIdent, out), tt)))"
    if len: "2 \<le> length argv"
      and p: "parse_opts st (drop 2 argv) (cfg_init, 0xFFFFFFFF) = Inr (c, a)"
  proof -
    from parse_opts_ext_meta [OF p] have flag: "\<not> ext_meta c" by (simp add: cfg_init_def)
    have run: "sump_main st date argv (Some t) =
               (if take 4 (incoming t) \<noteq> ident_magic
                then Some ((Some UnknownIdent, []), Some t')
                else case derive a c of
                       Inl e \<Rightarrow> Some ((Some e, []), Some t')
                     | Inr c2 \<Rightarrow> map_option (\<lambda>(r, t2). (r, Some t2)) (capture date c2 t'))"
      using flag by (simp add: sump_main_after_parse [OF len p] unf)
    show ?thesis
      using run after_ident_known [where a = a and c = c and t' = t' and date = date] by auto
  qed
  show ?thesis
    unfolding Let_def t'_def [symmetric]
    using unf iff ext main by blast
qed

theorem read_ident_handshake_witness:
  "6 \<le> wr_left \<lparr>sent = [], incoming = [0x31, 0x41, 0x4C, 0x53], wr_left = 6\<rparr>
   \<and> 4 \<le> length (incoming \<lparr>sent = [], incoming = [0x31, 0x41, 0x4C, 0x53], wr_left = 6\<rparr>)
   \<and> read_ident cfg_init \<lparr>sent = [], incoming = [0x31, 0x41, 0x4C, 0x53], wr_left = 6\<rparr>
       = (Inr cfg_init, \<lparr>sent = [[0], [0], [0], [0], [0], [2]], incoming = [], wr_left = 0\<rparr>)
   \<and> 6 \<le> wr_left \<lparr>sent = [], incoming = [0x31, 0x41, 0x4C, 0x00], wr_left = 6\<rparr>
   \<and> 4 \<le> length (incoming \<lparr>sent = [], incoming = [0x31, 0x41, 0x4C, 0x00], wr_left = 6\<rparr>)
   \<and> read_ident cfg_init \<lparr>sent = [], incoming = [0x31, 0x41, 0x4C, 0x00], wr_left = 6\<rparr>
       = (Inl UnknownIdent,
          \<lparr>sent = [[0], [0], [0], [0], [0], [2]], incoming = [], wr_left = 0\<rparr>)
   \<and> sump_main (\<lambda>s. (0, 0)) [] [''sump-dump'', ''/dev/ttyUSB1'']
         (Some \<lparr>sent = [], incoming = [0x31, 0x41, 0x4C, 0x00], wr_left = 6\<rparr>)
       = Some ((Some UnknownIdent, []),
               Some \<lparr>sent = [[0], [0], [0], [0], [0], [2]], incoming = [], wr_left = 0\<rparr>)"
  using read_ident_handshake
          [of "\<lparr>sent = [], incoming = [0x31, 0x41, 0x4C, 0x53], wr_left = 6\<rparr>" cfg_init
              "[''sump-dump'', ''/dev/ttyUSB1'']" "\<lambda>s. (0, 0)" "0xFFFFFFFF" "[]"]
        read_ident_handshake
          [of "\<lparr>sent = [], incoming = [0x31, 0x41, 0x4C, 0x00], wr_left = 6\<rparr>" cfg_init
              "[''sump-dump'', ''/dev/ttyUSB1'']" "\<lambda>s. (0, 0)" "0xFFFFFFFF" "[]"]
  by (simp add: Let_def ident_magic_def cmd_reset_def cmd_id_def frame_def parse_opts_Nil
        replicate_five cfg_init_def)

end
